theory Spec2Isabelle
  imports Complex_Main
begin

section \<open>Sonar Rover visualizers: point buffers, filters, colour maps, demo ray cast\<close>

text \<open>
  A shallow embedding of the visualizers under \<^verbatim>\<open>tools/visualizer\<close>.
  Python floats are read as real numbers (no rounding, no infinities, no NaN);
  \<^verbatim>\<open>time.time()\<close> is an argument \<open>now\<close> of the call that reads the clock;
  the draws of \<^verbatim>\<open>random.gauss\<close> and \<^verbatim>\<open>random.uniform\<close> come from a
  stream of reals that is passed in and handed back, one element per draw, with no
  assumption on the values drawn.  All plotting calls are left out; what a method
  hands to the plotting library is the value the model returns.
\<close>

subsection \<open>Python primitives\<close>

datatype py_error = ValueError | ZeroDivisionError | IndexError

text \<open>\<^verbatim>\<open>int(x)\<close> on a float truncates towards zero.\<close>

definition py_int :: "real \<Rightarrow> int" where
  "py_int x = (if 0 \<le> x then \<lfloor>x\<rfloor> else \<lceil>x\<rceil>)"

text \<open>\<^verbatim>\<open>math.radians\<close>.\<close>

definition radians :: "real \<Rightarrow> real" where
  "radians deg = deg * pi / 180"

text \<open>\<^verbatim>\<open>range(start, stop, 2)\<close> as the list of its values.\<close>

definition range2 :: "int \<Rightarrow> int \<Rightarrow> int list" where
  "range2 start stop =
     (if start < stop then map (\<lambda>k. start + 2 * int k) [0 ..< nat ((stop - start + 1) div 2)]
      else [])"

text \<open>The random source: \<open>draw g\<close> is the next value and the rest of the stream.\<close>

type_synonym rng = "nat \<Rightarrow> real"

definition draw :: "rng \<Rightarrow> real \<times> rng" where
  "draw g = (g 0, \<lambda>n. g (Suc n))"

subsection \<open>\<^verbatim>\<open>collections.deque(maxlen=n)\<close>\<close>

text \<open>
  The constructor raises \<^verbatim>\<open>ValueError\<close> on a negative \<^verbatim>\<open>maxlen\<close>.
  \<^verbatim>\<open>append\<close> adds the item on the right and then, when the size exceeds
  \<^verbatim>\<open>maxlen\<close>, removes one item on the left (so with \<^verbatim>\<open>maxlen = 0\<close> the deque
  stays empty).
\<close>

record 'a deque =
  maxlen :: nat
  items :: "'a list"

definition deque_new :: "int \<Rightarrow> py_error + 'a deque" where
  "deque_new n = (if n < 0 then Inl ValueError else Inr \<lparr>maxlen = nat n, items = []\<rparr>)"

definition deque_append :: "'a deque \<Rightarrow> 'a \<Rightarrow> 'a deque" where
  "deque_append d x =
     (let ys = items d @ [x] in d\<lparr>items := (if maxlen d < length ys then tl ys else ys)\<rparr>)"

subsection \<open>\<^verbatim>\<open>radar.py\<close>: \<^verbatim>\<open>RadarVisualizer\<close>\<close>

text \<open>A stored point is \<^verbatim>\<open>(x, y, dist, timestamp)\<close>.\<close>

type_synonym point4 = "real \<times> real \<times> real \<times> real"

datatype wall = Rect real real real real | Circle real real real

record RadarVisualizer =
  rv_max_points :: int
  rv_max_dist :: real
  rv_demo :: bool
  rv_points :: "point4 deque"
  rv_demo_angle :: real
  rv_demo_walls :: "wall list"
  rv_last_heading :: real
  rv_point_count :: nat

definition generate_demo_environment :: "wall list" where
  "generate_demo_environment =
     [Rect (-80) (-60) 160 120, Circle 40 30 20, Circle (-50) (-20) 15, Rect (-30) 50 25 30]"

definition RadarVisualizer_init :: "int \<Rightarrow> real \<Rightarrow> bool \<Rightarrow> py_error + RadarVisualizer" where
  "RadarVisualizer_init max_points max_dist demo =
     (case deque_new max_points of
        Inl e \<Rightarrow> Inl e
      | Inr d \<Rightarrow> Inr \<lparr>rv_max_points = max_points, rv_max_dist = max_dist, rv_demo = demo,
                      rv_points = d, rv_demo_angle = 0,
                      rv_demo_walls = generate_demo_environment,
                      rv_last_heading = 0, rv_point_count = 0\<rparr>)"

text \<open>
  The viewport that \<^verbatim>\<open>__init__\<close> sets with \<^verbatim>\<open>set_xlim\<close> and
  \<^verbatim>\<open>set_ylim\<close>: both axes run from \<^verbatim>\<open>-max_dist\<close> to \<^verbatim>\<open>max_dist\<close>.
\<close>

definition rv_xlim :: "RadarVisualizer \<Rightarrow> real \<times> real" where
  "rv_xlim self = (- rv_max_dist self, rv_max_dist self)"

definition rv_ylim :: "RadarVisualizer \<Rightarrow> real \<times> real" where
  "rv_ylim self = (- rv_max_dist self, rv_max_dist self)"

text \<open>
  The inner loops of \<^verbatim>\<open>_demo_raycast\<close>: \<^verbatim>\<open>for dist in range(...)\<close> with a
  \<^verbatim>\<open>break\<close> at the first distance whose point lies inside the obstacle.
\<close>

fun first_hit :: "(int \<Rightarrow> bool) \<Rightarrow> int list \<Rightarrow> int option" where
  "first_hit inside [] = None"
| "first_hit inside (d # ds) = (if inside d then Some d else first_hit inside ds)"

fun wall_contains :: "wall \<Rightarrow> real \<Rightarrow> real \<Rightarrow> bool" where
  "wall_contains (Rect x y w h) px py = (x \<le> px \<and> px \<le> x + w \<and> y \<le> py \<and> py \<le> y + h)"
| "wall_contains (Circle cx cy r) px py = ((px - cx)\<^sup>2 + (py - cy)\<^sup>2 \<le> r\<^sup>2)"

text \<open>The outer loop over the walls, carrying \<^verbatim>\<open>min_dist\<close>.\<close>

fun raycast_walls :: "real \<Rightarrow> real \<Rightarrow> int list \<Rightarrow> wall list \<Rightarrow> real \<Rightarrow> real" where
  "raycast_walls dx dy ds [] min_dist = min_dist"
| "raycast_walls dx dy ds (wall # walls) min_dist =
     raycast_walls dx dy ds walls
       (case first_hit (\<lambda>d. wall_contains wall (dx * real_of_int d) (dy * real_of_int d)) ds of
          None \<Rightarrow> min_dist
        | Some d \<Rightarrow> min min_dist (real_of_int d))"

text \<open>The search of \<^verbatim>\<open>_demo_raycast\<close>, up to the comment \<^verbatim>\<open># Add some noise\<close>.\<close>

definition demo_raycast_search :: "RadarVisualizer \<Rightarrow> real \<Rightarrow> real" where
  "demo_raycast_search self angle_deg =
     (let angle_rad = radians angle_deg;
          dx = sin angle_rad;
          dy = cos angle_rad
      in raycast_walls dx dy (range2 5 (py_int (rv_max_dist self))) (rv_demo_walls self)
           (rv_max_dist self))"

definition demo_raycast :: "RadarVisualizer \<Rightarrow> real \<Rightarrow> rng \<Rightarrow> real \<times> rng" where
  "demo_raycast self angle_deg g =
     (let min_dist = demo_raycast_search self angle_deg
      in if min_dist < rv_max_dist self
         then (let (noise, g') = draw g;
                   min_dist = min_dist + noise
               in (max 5 (min (rv_max_dist self) min_dist), g'))
         else (min_dist, g))"

text \<open>The scatter loop of \<^verbatim>\<open>add_point\<close>, \<open>n\<close> iterations left.\<close>

primrec add_point_scatter ::
  "nat \<Rightarrow> real \<Rightarrow> real \<Rightarrow> real \<Rightarrow> point4 deque \<Rightarrow> rng \<Rightarrow> point4 deque \<times> rng" where
  "add_point_scatter 0 theta dist_cm now pts g = (pts, g)"
| "add_point_scatter (Suc n) theta dist_cm now pts g =
     (let (a, g1) = draw g;
          scatter_angle = theta + a;
          (b, g2) = draw g1;
          scatter_dist = dist_cm + b;
          pts' = (if scatter_dist > 0
                  then deque_append pts
                         (scatter_dist * sin scatter_angle, scatter_dist * cos scatter_angle,
                          scatter_dist, now)
                  else pts)
      in add_point_scatter n theta dist_cm now pts' g2)"

definition add_point ::
  "RadarVisualizer \<Rightarrow> real \<Rightarrow> real \<Rightarrow> real \<Rightarrow> rng \<Rightarrow> RadarVisualizer \<times> rng" where
  "add_point self heading_deg dist_cm now g =
     (if dist_cm \<le> 0 \<or> dist_cm > rv_max_dist self then (self, g)
      else (let theta = radians heading_deg;
                (pts, g') = add_point_scatter 3 theta dist_cm now (rv_points self) g
            in (self\<lparr>rv_points := pts, rv_last_heading := heading_deg,
                      rv_point_count := rv_point_count self + 1\<rparr>, g')))"

text \<open>A sequence of calls of \<^verbatim>\<open>add_point\<close>, each with its heading, distance and clock.\<close>

fun radar_feed ::
  "RadarVisualizer \<Rightarrow> (real \<times> real \<times> real) list \<Rightarrow> rng \<Rightarrow> RadarVisualizer \<times> rng" where
  "radar_feed self [] g = (self, g)"
| "radar_feed self ((heading_deg, dist_cm, now) # rs) g =
     (let (self', g') = add_point self heading_deg dist_cm now g in radar_feed self' rs g')"





subsection \<open>\<^verbatim>\<open>lidar.py\<close>: \<^verbatim>\<open>LidarVisualizer\<close>\<close>

text \<open>The demo environment of the class is a table of random points and is left out.\<close>

record LidarVisualizer =
  lv_max_points :: int
  lv_max_dist :: real
  lv_points :: "point4 deque"
  lv_scan_count :: nat
  lv_last_dist :: real
  lv_last_heading :: real

definition LidarVisualizer_init :: "int \<Rightarrow> real \<Rightarrow> py_error + LidarVisualizer" where
  "LidarVisualizer_init max_points max_dist =
     (case deque_new max_points of
        Inl e \<Rightarrow> Inl e
      | Inr d \<Rightarrow> Inr \<lparr>lv_max_points = max_points, lv_max_dist = max_dist, lv_points = d,
                      lv_scan_count = 0, lv_last_dist = 0, lv_last_heading = 0\<rparr>)"

text \<open>
  The viewport that \<^verbatim>\<open>__init__\<close> sets: \<^verbatim>\<open>set_xlim(-max_dist, max_dist)\<close> and
  \<^verbatim>\<open>set_ylim(-max_dist * 0.3, max_dist)\<close>.
\<close>

definition lv_xlim :: "LidarVisualizer \<Rightarrow> real \<times> real" where
  "lv_xlim self = (- lv_max_dist self, lv_max_dist self)"

definition lv_ylim :: "LidarVisualizer \<Rightarrow> real \<times> real" where
  "lv_ylim self = (- lv_max_dist self * 0.3, lv_max_dist self)"

fun add_points_loop ::
  "real \<Rightarrow> real \<Rightarrow> (real \<times> real \<times> real) list \<Rightarrow> point4 deque \<Rightarrow> point4 deque" where
  "add_points_loop max_dist now [] pts = pts"
| "add_points_loop max_dist now ((x, y, d) # rest) pts =
     add_points_loop max_dist now rest
       (if 0 < d \<and> d < max_dist then deque_append pts (x, y, d, now) else pts)"

definition add_points ::
  "LidarVisualizer \<Rightarrow> (real \<times> real \<times> real) list \<Rightarrow> real \<Rightarrow> LidarVisualizer" where
  "add_points self points_list now =
     self\<lparr>lv_points := add_points_loop (lv_max_dist self) now points_list (lv_points self),
          lv_scan_count := lv_scan_count self + 1\<rparr>"

primrec lidar_beam ::
  "nat \<Rightarrow> real \<Rightarrow> real \<Rightarrow> real \<Rightarrow> point4 deque \<Rightarrow> rng \<Rightarrow> point4 deque \<times> rng" where
  "lidar_beam 0 theta dist_cm now pts g = (pts, g)"
| "lidar_beam (Suc n) theta dist_cm now pts g =
     (let (a, g1) = draw g;
          angle = theta + a;
          (b, g2) = draw g1;
          d = dist_cm + b;
          pts' = (if d > 0 then deque_append pts (d * sin angle, d * cos angle, d, now)
                  else pts)
      in lidar_beam n theta dist_cm now pts' g2)"

definition lidar_add_reading ::
  "LidarVisualizer \<Rightarrow> real \<Rightarrow> real \<Rightarrow> real \<Rightarrow> rng \<Rightarrow> LidarVisualizer \<times> rng" where
  "lidar_add_reading self heading_deg dist_cm now g =
     (if dist_cm \<le> 0 \<or> dist_cm > lv_max_dist self then (self, g)
      else (let theta = radians heading_deg;
                (pts, g') = lidar_beam 8 theta dist_cm now (lv_points self) g
            in (self\<lparr>lv_points := pts, lv_last_dist := dist_cm, lv_last_heading := heading_deg,
                      lv_scan_count := lv_scan_count self + 1\<rparr>, g')))"

text \<open>
  A sequence of calls on a \<^verbatim>\<open>LidarVisualizer\<close>: \<^verbatim>\<open>add_points\<close> with a list of
  hits and the clock, or \<^verbatim>\<open>add_reading\<close> with heading, distance and clock.
\<close>

datatype lidar_call = AddPoints "(real \<times> real \<times> real) list" real | AddReading real real real

fun lidar_feed :: "LidarVisualizer \<Rightarrow> lidar_call list \<Rightarrow> rng \<Rightarrow> LidarVisualizer \<times> rng" where
  "lidar_feed self [] g = (self, g)"
| "lidar_feed self (AddPoints points_list now # cs) g =
     lidar_feed (add_points self points_list now) cs g"
| "lidar_feed self (AddReading heading_deg dist_cm now # cs) g =
     (let (self', g') = lidar_add_reading self heading_deg dist_cm now g
      in lidar_feed self' cs g')"

text \<open>
  \<^verbatim>\<open>update_display\<close>: the literal 45 of \<^verbatim>\<open>cutoff = now - 45\<close> is the argument
  \<open>lifetime\<close>, and \<open>lidar_update_display\<close> passes 45.  The sizes divide by
  \<^verbatim>\<open>max_dist\<close> in numpy, which does not raise.
\<close>

fun update_display_loop ::
  "real \<Rightarrow> point4 list \<Rightarrow> real list \<times> real list \<times> real list
     \<Rightarrow> real list \<times> real list \<times> real list" where
  "update_display_loop cutoff [] acc = acc"
| "update_display_loop cutoff ((x, y, d, t) # ps) (xs, ys, dists) =
     (if t > cutoff then update_display_loop cutoff ps (xs @ [x], ys @ [y], dists @ [d])
      else update_display_loop cutoff ps (xs, ys, dists))"

record lidar_frame =
  lf_offsets :: "(real \<times> real) list"
  lf_array :: "real list"
  lf_sizes :: "real list"

definition update_display_lifetime ::
  "real \<Rightarrow> LidarVisualizer \<Rightarrow> real \<Rightarrow> lidar_frame option" where
  "update_display_lifetime lifetime self now =
     (if items (lv_points self) = [] then None
      else (let cutoff = now - lifetime;
                (xs, ys, dists) = update_display_loop cutoff (items (lv_points self)) ([], [], [])
            in if xs = [] then None
               else Some \<lparr>lf_offsets = zip xs ys, lf_array = dists,
                          lf_sizes = map (\<lambda>d. 4 - d / lv_max_dist self * 2) dists\<rparr>))"

definition lidar_update_display :: "LidarVisualizer \<Rightarrow> real \<Rightarrow> lidar_frame option" where
  "lidar_update_display = update_display_lifetime 45"

subsection \<open>\<^verbatim>\<open>pointcloud.py\<close>: \<^verbatim>\<open>PointCloudScanner\<close>\<close>

text \<open>A stored point is \<^verbatim>\<open>(px, py, point_dist, size, now)\<close>.\<close>

type_synonym point5 = "real \<times> real \<times> real \<times> real \<times> real"

record PointCloudScanner =
  pc_max_points :: int
  pc_max_dist :: real
  pc_fov :: real
  pc_points :: "point5 deque"
  pc_camera_angle :: real
  pc_camera_speed :: real
  pc_width :: real
  pc_height :: real
  pc_last_dist :: real
  pc_scan_count :: nat

definition PointCloudScanner_init ::
  "int \<Rightarrow> real \<Rightarrow> real \<Rightarrow> py_error + PointCloudScanner" where
  "PointCloudScanner_init max_points max_dist fov =
     (case deque_new max_points of
        Inl e \<Rightarrow> Inl e
      | Inr d \<Rightarrow> Inr \<lparr>pc_max_points = max_points, pc_max_dist = max_dist, pc_fov = fov,
                      pc_points = d, pc_camera_angle = 0, pc_camera_speed = 0.8,
                      pc_width = 1200, pc_height = 700, pc_last_dist = 0,
                      pc_scan_count = 0\<rparr>)"

text \<open>
  The viewport that \<^verbatim>\<open>__init__\<close> sets: \<^verbatim>\<open>set_xlim(0, self.width)\<close> and
  \<^verbatim>\<open>set_ylim(0, self.height)\<close>.
\<close>

definition pc_xlim :: "PointCloudScanner \<Rightarrow> real \<times> real" where
  "pc_xlim self = (0, pc_width self)"

definition pc_ylim :: "PointCloudScanner \<Rightarrow> real \<times> real" where
  "pc_ylim self = (0, pc_height self)"

text \<open>\<^verbatim>\<open>x % 360\<close> on a float.\<close>

definition fmod360 :: "real \<Rightarrow> real" where
  "fmod360 x = x - 360 * real_of_int \<lfloor>x / 360\<rfloor>"

text \<open>The loop \<^verbatim>\<open>for _ in range(num_points)\<close> of \<^verbatim>\<open>add_reading\<close>.\<close>

primrec beam_points ::
  "nat \<Rightarrow> PointCloudScanner \<Rightarrow> real \<Rightarrow> real \<Rightarrow> real \<Rightarrow> real \<Rightarrow> real
     \<Rightarrow> point5 deque \<Rightarrow> rng \<Rightarrow> point5 deque \<times> rng" where
  "beam_points 0 self base_x base_y base_size dst now pts g = (pts, g)"
| "beam_points (Suc n) self base_x base_y base_size dst now pts g =
     (let (spread_x, g1) = draw g;
          (spread_y, g2) = draw g1;
          px = base_x + spread_x;
          py = base_y + spread_y;
          px = max 10 (min (pc_width self - 10) px);
          py = max 10 (min (pc_height self - 50) py);
          (u, g3) = draw g2;
          size = base_size * u;
          (e, g4) = draw g3;
          point_dist = dst + e;
          point_dist = max 1 (min (pc_max_dist self) point_dist)
      in beam_points n self base_x base_y base_size dst now
           (deque_append pts (px, py, point_dist, size, now)) g4)"

text \<open>
  \<^verbatim>\<open>add_reading\<close>.  The division \<^verbatim>\<open>dist / self.max_dist\<close> raises
  \<^verbatim>\<open>ZeroDivisionError\<close> when \<^verbatim>\<open>max_dist\<close> is zero.
\<close>

definition pc_add_reading ::
  "PointCloudScanner \<Rightarrow> real \<Rightarrow> real \<Rightarrow> real \<Rightarrow> rng
     \<Rightarrow> py_error + PointCloudScanner \<times> rng" where
  "pc_add_reading self dst heading_offset now g =
     (if dst \<le> 0 then Inr (self, g)
      else (let camera_angle = pc_camera_angle self + (pc_camera_speed self + heading_offset);
                angle_rad = radians (fmod360 camera_angle);
                base_x = pc_width self / 2 + (pc_width self * 0.4) * sin angle_rad
            in if pc_max_dist self = 0 then Inl ZeroDivisionError
               else (let depth_factor = dst / pc_max_dist self;
                         base_y = pc_height self * (0.3 + 0.5 * depth_factor);
                         base_size = max 1 (8 - 6 * depth_factor);
                         num_points = max 3 (py_int (15 - 10 * depth_factor));
                         (pts, g') = beam_points (nat num_points) self base_x base_y base_size
                                       dst now (pc_points self) g
                     in Inr (self\<lparr>pc_points := pts, pc_last_dist := dst,
                                   pc_scan_count := pc_scan_count self + 1,
                                   pc_camera_angle := camera_angle\<rparr>, g'))))"

fun pc_feed ::
  "PointCloudScanner \<Rightarrow> (real \<times> real \<times> real) list \<Rightarrow> rng
     \<Rightarrow> py_error + PointCloudScanner \<times> rng" where
  "pc_feed self [] g = Inr (self, g)"
| "pc_feed self ((dst, heading_offset, now) # rs) g =
     (case pc_add_reading self dst heading_offset now g of
        Inl e \<Rightarrow> Inl e
      | Inr (self', g') \<Rightarrow> pc_feed self' rs g')"

subsection \<open>\<^verbatim>\<open>sonar_radar.py\<close>: \<^verbatim>\<open>SonarRadar\<close>\<close>

definition WIDTH :: int where "WIDTH = 900"
definition HEIGHT :: int where "HEIGHT = 700"
definition CENTER_X :: int where "CENTER_X = WIDTH div 2"
definition CENTER_Y :: int where "CENTER_Y = HEIGHT - 100"
definition MAX_RANGE :: real where "MAX_RANGE = 200"
definition PIXELS_PER_CM :: real where "PIXELS_PER_CM = 2.5"
definition MAX_POINTS :: int where "MAX_POINTS = 500"

record RadarPoint =
  distance :: real
  timestamp :: real



record SonarRadar =
  sr_points :: "RadarPoint deque"
  sr_current_distance :: real
  sr_state :: string
  sr_last_reading_time :: real

definition SonarRadar_init :: "py_error + SonarRadar" where
  "SonarRadar_init =
     (case deque_new MAX_POINTS of
        Inl e \<Rightarrow> Inl e
      | Inr d \<Rightarrow> Inr \<lparr>sr_points = d, sr_current_distance = 0, sr_state = ''STOP'',
                      sr_last_reading_time = 0\<rparr>)"

text \<open>
  \<^verbatim>\<open>read_data\<close> after the line is decoded: \<open>d\<close> and \<open>s\<close> are the values of the
  keys \<^verbatim>\<open>'d'\<close> and \<^verbatim>\<open>'s'\<close>.
\<close>

definition read_data :: "SonarRadar \<Rightarrow> real \<Rightarrow> string \<Rightarrow> real \<Rightarrow> SonarRadar" where
  "read_data self d s now =
     (let self = self\<lparr>sr_current_distance := d, sr_state := s\<rparr>
      in if 2 < d \<and> d < MAX_RANGE
         then self\<lparr>sr_points := deque_append (sr_points self)
                                   \<lparr>distance = d, timestamp = now\<rparr>,
                   sr_last_reading_time := now\<rparr>
         else self)"

text \<open>A sequence of decoded lines, each with its distance, state label and clock.\<close>

fun sr_feed :: "SonarRadar \<Rightarrow> (real \<times> string \<times> real) list \<Rightarrow> SonarRadar" where
  "sr_feed self [] = self"
| "sr_feed self ((d, s, now) # rs) = sr_feed (read_data self d s now) rs"


text \<open>A call of \<^verbatim>\<open>pygame.draw.circle\<close>: colour, centre and radius.\<close>

type_synonym circle = "(int \<times> int \<times> int) \<times> (int \<times> int) \<times> int"

definition draw_point :: "real \<Rightarrow> RadarPoint \<Rightarrow> real \<Rightarrow> circle" where
  "draw_point a p now =
     (let px = CENTER_X;
          py = CENTER_Y - py_int (distance p * PIXELS_PER_CM);
          base_color = (if distance p < 30 then (255, 50, 50)
                        else if distance p < 80 then (255, 180, 0)
                        else (50, 255, 50));
          color = (case base_color of (r, g, b) \<Rightarrow>
                     (py_int (r * a), py_int (g * a), py_int (b * a)));
          size = max 2 (py_int (5 * a))
      in (color, (px, py), size))"




subsection \<open>\<^verbatim>\<open>sonar_pulse.py\<close>: \<^verbatim>\<open>SonarPulse\<close>\<close>

type_synonym colour = "int \<times> int \<times> int"

type_synonym keypoint = "real \<times> colour"

definition keypoints :: "keypoint list" where
  "keypoints =
     [(0.0, (255, 30, 30)), (0.12, (255, 80, 0)), (0.25, (255, 160, 0)),
      (0.38, (255, 230, 0)), (0.50, (150, 255, 50)), (0.62, (0, 255, 120)),
      (0.75, (0, 230, 200)), (0.88, (0, 150, 255)), (1.0, (30, 60, 180))]"

text \<open>The body of the inner loop of \<^verbatim>\<open>_build_gradient\<close> once \<^verbatim>\<open>t1 <= t <= t2\<close>.\<close>

definition gradient_mix :: "keypoint \<Rightarrow> keypoint \<Rightarrow> real \<Rightarrow> colour" where
  "gradient_mix k1 k2 t =
     (case (k1, k2) of ((t1, (r1, g1, b1)), (t2, (r2, g2, b2))) \<Rightarrow>
        (let local_t = (if t2 > t1 then (t - t1) / (t2 - t1) else 0)
         in (py_int (real_of_int r1 + real_of_int (r2 - r1) * local_t),
             py_int (real_of_int g1 + real_of_int (g2 - g1) * local_t),
             py_int (real_of_int b1 + real_of_int (b2 - b1) * local_t))))"

text \<open>
  The inner loop over \<^verbatim>\<open>j\<close>, that is over the pairs of neighbouring keypoints, with
  its \<^verbatim>\<open>break\<close>; \<open>None\<close> when the loop ends without one.
\<close>

fun gradient_search :: "keypoint list \<Rightarrow> real \<Rightarrow> colour option" where
  "gradient_search (k1 # k2 # ks) t =
     (if fst k1 \<le> t \<and> t \<le> fst k2 then Some (gradient_mix k1 k2 t)
      else gradient_search (k2 # ks) t)"
| "gradient_search ks t = None"

text \<open>
  \<^verbatim>\<open>_build_gradient\<close> with the local list \<^verbatim>\<open>keypoints\<close> as its argument.  The
  \<^verbatim>\<open>else\<close> of the inner loop reads \<^verbatim>\<open>keypoints[-1]\<close>, which raises on the empty
  list.
\<close>

definition build_gradient_from :: "keypoint list \<Rightarrow> py_error + colour list" where
  "build_gradient_from kps =
     (if kps = [] then Inl IndexError
      else Inr (map (\<lambda>i. let t = real i / 255.0
                         in case gradient_search kps t of
                              Some c \<Rightarrow> c
                            | None \<Rightarrow> snd (last kps))
                  [0 ..< 256]))"

definition build_gradient :: "py_error + colour list" where
  "build_gradient = build_gradient_from keypoints"

text \<open>
  The lookup of \<^verbatim>\<open>render\<close>:
  \<^verbatim>\<open>self.colors[int(min(1.0, max(0.0, dist_ratio)) * 255)]\<close>.
\<close>

definition color_at :: "colour list \<Rightarrow> real \<Rightarrow> py_error + colour" where
  "color_at colors dist_ratio =
     (let color_idx = py_int (min 1.0 (max 0.0 dist_ratio) * 255)
      in if nat color_idx < length colors then Inr (colors ! nat color_idx)
         else Inl IndexError)"

text \<open>
  The contract of the colour map, from the specification: the keypoints are
  \<open>(t, color)\<close> pairs with \<open>t\<close> strictly increasing, the first \<open>t\<close> is 0 and the
  last is 1.
\<close>

definition valid_keypoints :: "keypoint list \<Rightarrow> bool" where
  "valid_keypoints kps \<longleftrightarrow>
     kps \<noteq> [] \<and> fst (hd kps) = 0 \<and> fst (last kps) = 1 \<and> sorted_wrt (<) (map fst kps)"

text \<open>The random point cloud of the class is left out.\<close>

record SonarPulse =
  sp_width :: int
  sp_height :: int
  sp_max_dist :: real
  sp_current_dist :: real
  sp_target_dist :: real
  sp_state :: string
  sp_reading_history :: "real list"
  sp_history_size :: nat
  sp_dist_graph :: "(real \<times> real \<times> real) list"
  sp_graph_duration :: real
  sp_scan_count :: nat
  sp_colors :: "colour list"

definition SonarPulse_init :: "int \<Rightarrow> int \<Rightarrow> real \<Rightarrow> py_error + SonarPulse" where
  "SonarPulse_init width height max_dist =
     (case build_gradient of
        Inl e \<Rightarrow> Inl e
      | Inr colors \<Rightarrow>
          Inr \<lparr>sp_width = width, sp_height = height, sp_max_dist = max_dist,
               sp_current_dist = 100.0, sp_target_dist = 100.0, sp_state = ''SCANNING'',
               sp_reading_history = [], sp_history_size = 5, sp_dist_graph = [],
               sp_graph_duration = 10.0, sp_scan_count = 0, sp_colors = colors\<rparr>)"

text \<open>
  \<^verbatim>\<open>add_reading\<close>.  \<^verbatim>\<open>sorted_history[len(sorted_history) // 2]\<close> raises on an
  empty list.
\<close>

definition sp_add_reading ::
  "SonarPulse \<Rightarrow> real \<Rightarrow> string \<Rightarrow> real \<Rightarrow> py_error + SonarPulse" where
  "sp_add_reading self dst state now =
     (let raw_dist = dst;
          dst = max 2 (min dst (sp_max_dist self * 1.1));
          history = sp_reading_history self @ [dst];
          history = (if length history > sp_history_size self then tl history else history);
          sorted_history = sort history
      in if sorted_history = [] then Inl IndexError
         else (let smoothed = sorted_history ! (length sorted_history div 2);
                   cutoff = now - sp_graph_duration self
               in Inr (self\<lparr>sp_state := (if state \<noteq> [] then state else ''SCANNING''),
                             sp_scan_count := sp_scan_count self + 1,
                             sp_reading_history := history,
                             sp_target_dist := smoothed,
                             sp_dist_graph :=
                               filter (\<lambda>(t, r, s). t > cutoff)
                                 (sp_dist_graph self @ [(now, raw_dist, smoothed)])\<rparr>)))"

definition update :: "SonarPulse \<Rightarrow> real \<Rightarrow> SonarPulse" where
  "update self dt =
     (let diff = sp_target_dist self - sp_current_dist self
      in self\<lparr>sp_current_dist := sp_current_dist self + diff * min 1.0 (dt * 8)\<rparr>)"

text \<open>
  The median in the words of the specification, to compare with what \<^verbatim>\<open>add_reading\<close>
  computes: a value of the window with at least half of the window at or below it and at
  least half at or above it.
\<close>

definition is_median :: "real \<Rightarrow> real list \<Rightarrow> bool" where
  "is_median m xs \<longleftrightarrow>
     m \<in> set xs \<and> length xs \<le> 2 * length (filter (\<lambda>x. x \<le> m) xs)
              \<and> length xs \<le> 2 * length (filter (\<lambda>x. m \<le> x) xs)"

text \<open>A sequence of calls of \<^verbatim>\<open>add_reading\<close>: distance, state label and clock.\<close>

fun sp_feed :: "SonarPulse \<Rightarrow> (real \<times> string \<times> real) list \<Rightarrow> py_error + SonarPulse" where
  "sp_feed self [] = Inr self"
| "sp_feed self ((dst, state, now) # rs) =
     (case sp_add_reading self dst state now of
        Inl e \<Rightarrow> Inl e
      | Inr self' \<Rightarrow> sp_feed self' rs)"

subsection \<open>\<^verbatim>\<open>depth_scanner.py\<close>: \<^verbatim>\<open>DepthScanner\<close>\<close>

type_synonym rgb = "real \<times> real \<times> real"

definition rgb_scale :: "rgb \<Rightarrow> real \<Rightarrow> rgb" where
  "rgb_scale c k = (case c of (r, g, b) \<Rightarrow> (r * k, g * k, b * k))"

definition rgb_add :: "rgb \<Rightarrow> rgb \<Rightarrow> rgb" where
  "rgb_add c c' = (case (c, c') of ((r, g, b), (r', g', b')) \<Rightarrow> (r + r', g + g', b + b'))"


text \<open>
  The two numpy arrays, indexed by row \<open>y\<close> and column \<open>x\<close>.  The model writes only
  at indices inside the array, which is the case for a positive width and height.
\<close>

type_synonym 'a image = "int \<Rightarrow> int \<Rightarrow> 'a"


record DepthScanner =
  ds_width :: int
  ds_height :: int
  ds_max_dist :: real
  ds_depth_buffer :: "real image"
  ds_display :: "rgb image"
  ds_scan_x :: int
  ds_scan_speed :: int
  ds_colors :: "rgb list"
  ds_last_dist :: real
  ds_scan_count :: nat

definition depth_colors :: "rgb list" where
  "depth_colors =
     [(0.0, 0.0, 1.0), (0.0, 0.5, 1.0), (0.0, 1.0, 1.0), (0.0, 1.0, 0.5), (0.0, 1.0, 0.0),
      (0.5, 1.0, 0.0), (1.0, 1.0, 0.0), (1.0, 0.5, 0.0), (1.0, 0.0, 0.0)]"

definition DepthScanner_init :: "int \<Rightarrow> int \<Rightarrow> real \<Rightarrow> py_error + DepthScanner" where
  "DepthScanner_init width height max_dist =
     (if width < 0 \<or> height < 0 then Inl ValueError
      else Inr \<lparr>ds_width = width, ds_height = height, ds_max_dist = max_dist,
                ds_depth_buffer = (\<lambda>y x. max_dist), ds_display = (\<lambda>y x. (0, 0, 0)),
                ds_scan_x = 0, ds_scan_speed = 3, ds_colors = depth_colors,
                ds_last_dist = 0, ds_scan_count = 0\<rparr>)"

text \<open>
  \<^verbatim>\<open>dist_to_color\<close>.  The division raises when \<^verbatim>\<open>max_dist\<close> is zero, the
  indexing when there is no colour.
\<close>

definition dist_to_color :: "DepthScanner \<Rightarrow> real \<Rightarrow> py_error + rgb" where
  "dist_to_color self dst =
     (if ds_max_dist self = 0 then Inl ZeroDivisionError
      else (let t = max 0 (min 1 (dst / ds_max_dist self));
                idx = t * (real (length (ds_colors self)) - 1);
                idx_low = py_int idx;
                idx_high = min (idx_low + 1) (int (length (ds_colors self)) - 1);
                frac = idx - real_of_int idx_low
            in if ds_colors self = [] then Inl IndexError
               else Inr (rgb_add (rgb_scale (ds_colors self ! nat idx_low) (1 - frac))
                                 (rgb_scale (ds_colors self ! nat idx_high) frac))))"





section \<open>Properties\<close>

subsection \<open>The bounded buffer\<close>

lemma deque_append_maxlen: "maxlen (deque_append d x) = maxlen d"
  by (simp add: deque_append_def Let_def)

lemma deque_append_bound:
  "length (items d) \<le> maxlen d \<Longrightarrow> length (items (deque_append d x)) \<le> maxlen d"
  by (simp add: deque_append_def Let_def)

lemma deque_append_full:
  "length (items d) = maxlen d \<Longrightarrow> 0 < maxlen d \<Longrightarrow> items (deque_append d x) = tl (items d) @ [x]"
  by (cases "items d") (simp_all add: deque_append_def Let_def)

lemma deque_append_room:
  "length (items d) < maxlen d \<Longrightarrow> items (deque_append d x) = items d @ [x]"
  by (simp add: deque_append_def Let_def)

lemma deque_append_drop:
  assumes "length (items d) \<le> maxlen d"
  shows "items (deque_append d x) = drop (length (items d @ [x]) - maxlen d) (items d @ [x])"
proof -
  define ys where "ys = items d @ [x]"
  have len: "length ys \<le> Suc (maxlen d)" using assms by (simp add: ys_def)
  have "(if maxlen d < length ys then tl ys else ys) = drop (length ys - maxlen d) ys"
  proof (cases "maxlen d < length ys")
    case True
    with len have "length ys - maxlen d = Suc 0" by simp
    with True show ?thesis by (simp add: drop_Suc)
  next
    case False
    then show ?thesis by simp
  qed
  moreover have "items (deque_append d x) = (if maxlen d < length ys then tl ys else ys)"
    by (simp add: deque_append_def Let_def ys_def)
  ultimately show ?thesis by (simp only: ys_def)
qed

lemma foldl_deque_append_maxlen: "maxlen (foldl deque_append d xs) = maxlen d"
  by (induction xs arbitrary: d) (simp_all add: deque_append_maxlen)

lemma foldl_deque_append_bound:
  "length (items d) \<le> maxlen d \<Longrightarrow> length (items (foldl deque_append d xs)) \<le> maxlen d"
proof (induction xs arbitrary: d)
  case Nil
  then show ?case by simp
next
  case (Cons x xs)
  from Cons.prems have "length (items (deque_append d x)) \<le> maxlen (deque_append d x)"
    by (simp add: deque_append_bound deque_append_maxlen)
  from Cons.IH [OF this] show ?case by (simp add: deque_append_maxlen)
qed

lemma foldl_deque_append_drop:
  "length (items d) \<le> maxlen d \<Longrightarrow>
   items (foldl deque_append d xs) = drop (length (items d @ xs) - maxlen d) (items d @ xs)"
proof (induction xs rule: rev_induct)
  case Nil
  then show ?case by simp
next
  case (snoc x xs)
  define e where "e = foldl deque_append d xs"
  define zs where "zs = items d @ xs"
  define k where "k = length zs - maxlen d"
  have m: "maxlen e = maxlen d" by (simp add: e_def foldl_deque_append_maxlen)
  have b: "length (items e) \<le> maxlen e"
    using snoc.prems by (simp add: e_def foldl_deque_append_bound foldl_deque_append_maxlen)
  have ie: "items e = drop k zs"
    using snoc.IH [OF snoc.prems] by (simp add: e_def zs_def k_def)
  have k: "k \<le> length zs" by (simp add: k_def)
  have "items (foldl deque_append d (xs @ [x])) = items (deque_append e x)"
    by (simp add: e_def)
  also have "\<dots> = drop (length (items e @ [x]) - maxlen d) (items e @ [x])"
    using deque_append_drop [OF b] by (simp add: m)
  also have "items e @ [x] = drop k (zs @ [x])" using k by (simp add: ie)
  also have "drop (length (drop k (zs @ [x])) - maxlen d) (drop k (zs @ [x]))
             = drop (length (zs @ [x]) - maxlen d) (zs @ [x])"
  proof -
    have "length (drop k (zs @ [x])) - maxlen d + k = length (zs @ [x]) - maxlen d"
      by (simp add: k_def)
    then show ?thesis by (simp only: drop_drop)
  qed
  finally show ?case by (simp add: zs_def)
qed


lemma deque_new_Inr:
  "0 \<le> n \<Longrightarrow> deque_new n = Inr \<lparr>maxlen = nat n, items = []\<rparr>"
  by (simp add: deque_new_def)

lemma deque_append_inv:
  "maxlen d = m \<Longrightarrow> length (items d) \<le> m \<Longrightarrow>
   maxlen (deque_append d x) = m \<and> length (items (deque_append d x)) \<le> m"
  using deque_append_bound [of d x] by (simp add: deque_append_maxlen)

lemma add_point_scatter_inv:
  "maxlen pts = m \<Longrightarrow> length (items pts) \<le> m \<Longrightarrow>
   length (items (fst (add_point_scatter n theta dist_cm now pts g))) \<le> m \<and>
   maxlen (fst (add_point_scatter n theta dist_cm now pts g)) = m"
proof (induction n arbitrary: pts g)
  case 0
  then show ?case by simp
next
  case (Suc n)
  show ?case
    using Suc.prems
    by (simp add: Let_def case_prod_beta Suc.IH deque_append_inv)
qed

lemma lidar_beam_inv:
  "maxlen pts = m \<Longrightarrow> length (items pts) \<le> m \<Longrightarrow>
   length (items (fst (lidar_beam n theta dist_cm now pts g))) \<le> m \<and>
   maxlen (fst (lidar_beam n theta dist_cm now pts g)) = m"
proof (induction n arbitrary: pts g)
  case 0
  then show ?case by simp
next
  case (Suc n)
  show ?case
    using Suc.prems
    by (simp add: Let_def case_prod_beta Suc.IH deque_append_inv)
qed

lemma beam_points_inv:
  "maxlen pts = m \<Longrightarrow> length (items pts) \<le> m \<Longrightarrow>
   length (items (fst (beam_points n self bx by bs dst now pts g))) \<le> m \<and>
   maxlen (fst (beam_points n self bx by bs dst now pts g)) = m"
proof (induction n arbitrary: pts g)
  case 0
  then show ?case by simp
next
  case (Suc n)
  show ?case
    using Suc.prems
    by (simp add: Let_def case_prod_beta Suc.IH deque_append_inv)
qed

lemma add_points_loop_inv:
  "maxlen pts = m \<Longrightarrow> length (items pts) \<le> m \<Longrightarrow>
   length (items (add_points_loop max_dist now hits pts)) \<le> m \<and>
   maxlen (add_points_loop max_dist now hits pts) = m"
  by (induction max_dist now hits pts rule: add_points_loop.induct)
     (simp_all add: deque_append_inv)

lemma add_point_inv:
  assumes "length (items (rv_points self)) \<le> maxlen (rv_points self)"
  shows "length (items (rv_points (fst (add_point self h d now g)))) \<le> maxlen (rv_points self) \<and>
         maxlen (rv_points (fst (add_point self h d now g))) = maxlen (rv_points self)"
  using add_point_scatter_inv [OF refl assms, of 3 "radians h" d now g] assms
  by (simp add: add_point_def Let_def case_prod_beta)

lemma radar_feed_inv:
  "length (items (rv_points self)) \<le> maxlen (rv_points self) \<Longrightarrow>
   length (items (rv_points (fst (radar_feed self rs g)))) \<le> maxlen (rv_points self) \<and>
   maxlen (rv_points (fst (radar_feed self rs g))) = maxlen (rv_points self)"
proof (induction self rs g rule: radar_feed.induct)
  case (1 self g)
  then show ?case by simp
next
  case (2 self h d now rs g)
  obtain self' g' where step: "add_point self h d now g = (self', g')" by (cases "add_point self h d now g")
  from add_point_inv [OF "2.prems", of h d now g] step
  have inv: "length (items (rv_points self')) \<le> maxlen (rv_points self')"
    and m: "maxlen (rv_points self') = maxlen (rv_points self)" by simp_all
  from "2.IH" [OF step [symmetric] refl inv] show ?case by (simp add: step m)
qed

lemma lidar_add_reading_inv:
  assumes "length (items (lv_points self)) \<le> maxlen (lv_points self)"
  shows "length (items (lv_points (fst (lidar_add_reading self h d now g)))) \<le> maxlen (lv_points self) \<and>
         maxlen (lv_points (fst (lidar_add_reading self h d now g))) = maxlen (lv_points self)"
  using lidar_beam_inv [OF refl assms, of 8 "radians h" d now g] assms
  by (simp add: lidar_add_reading_def Let_def case_prod_beta)

lemma add_points_inv:
  assumes "length (items (lv_points self)) \<le> maxlen (lv_points self)"
  shows "length (items (lv_points (add_points self hits now))) \<le> maxlen (lv_points self) \<and>
         maxlen (lv_points (add_points self hits now)) = maxlen (lv_points self)"
  using add_points_loop_inv [OF refl assms] by (simp add: add_points_def)

lemma lidar_feed_inv:
  "length (items (lv_points self)) \<le> maxlen (lv_points self) \<Longrightarrow>
   length (items (lv_points (fst (lidar_feed self cs g)))) \<le> maxlen (lv_points self) \<and>
   maxlen (lv_points (fst (lidar_feed self cs g))) = maxlen (lv_points self)"
proof (induction self cs g rule: lidar_feed.induct)
  case (1 self g)
  then show ?case by simp
next
  case (2 self hits now cs g)
  from add_points_inv [OF "2.prems", of hits now]
  have inv: "length (items (lv_points (add_points self hits now))) \<le> maxlen (lv_points (add_points self hits now))"
    and m: "maxlen (lv_points (add_points self hits now)) = maxlen (lv_points self)" by simp_all
  from "2.IH" [OF inv] show ?case by (simp add: m)
next
  case (3 self h d now cs g)
  obtain self' g' where step: "lidar_add_reading self h d now g = (self', g')"
    by (cases "lidar_add_reading self h d now g")
  from lidar_add_reading_inv [OF "3.prems", of h d now g] step
  have inv: "length (items (lv_points self')) \<le> maxlen (lv_points self')"
    and m: "maxlen (lv_points self') = maxlen (lv_points self)" by simp_all
  from "3.IH" [OF step [symmetric] refl inv] show ?case by (simp add: step m)
qed

lemma pc_add_reading_inv:
  assumes "length (items (pc_points self)) \<le> maxlen (pc_points self)"
    and "pc_add_reading self d ho now g = Inr (self', g')"
  shows "length (items (pc_points self')) \<le> maxlen (pc_points self) \<and>
         maxlen (pc_points self') = maxlen (pc_points self)"
proof (cases "d \<le> 0")
  case True
  with assms show ?thesis by (simp add: pc_add_reading_def)
next
  case False
  with assms(2) have nz: "pc_max_dist self \<noteq> 0"
    by (auto simp add: pc_add_reading_def Let_def split: if_splits)
  from assms(2) False nz beam_points_inv [OF refl assms(1)]
  show ?thesis
    by (auto simp add: pc_add_reading_def Let_def case_prod_beta)
qed

lemma pc_feed_inv:
  "length (items (pc_points self)) \<le> maxlen (pc_points self) \<Longrightarrow>
   pc_feed self qs g = Inr (self', g') \<Longrightarrow>
   length (items (pc_points self')) \<le> maxlen (pc_points self) \<and>
   maxlen (pc_points self') = maxlen (pc_points self)"
proof (induction self qs g rule: pc_feed.induct)
  case (1 self g)
  then show ?case by simp
next
  case (2 self d ho now rs g)
  from "2.prems"(2) obtain s1 g1 where step: "pc_add_reading self d ho now g = Inr (s1, g1)"
    and rest: "pc_feed s1 rs g1 = Inr (self', g')"
    by (auto split: sum.splits)
  from pc_add_reading_inv [OF "2.prems"(1) step]
  have inv: "length (items (pc_points s1)) \<le> maxlen (pc_points s1)"
    and m: "maxlen (pc_points s1) = maxlen (pc_points self)" by simp_all
  from "2.IH" [OF step refl inv rest] show ?case by (simp add: m)
qed


lemma RadarVisualizer_init_Inr:
  "0 \<le> max_points \<Longrightarrow>
   \<exists>rv. RadarVisualizer_init max_points max_dist demo = Inr rv \<and>
        maxlen (rv_points rv) = nat max_points \<and> items (rv_points rv) = []"
  by (simp add: RadarVisualizer_init_def deque_new_def)

lemma LidarVisualizer_init_Inr:
  "0 \<le> max_points \<Longrightarrow>
   \<exists>lv. LidarVisualizer_init max_points max_dist = Inr lv \<and>
        maxlen (lv_points lv) = nat max_points \<and> items (lv_points lv) = []"
  by (simp add: LidarVisualizer_init_def deque_new_def)

lemma PointCloudScanner_init_Inr:
  "0 \<le> max_points \<Longrightarrow>
   \<exists>pc. PointCloudScanner_init max_points max_dist fov = Inr pc \<and>
        maxlen (pc_points pc) = nat max_points \<and> items (pc_points pc) = []"
  by (simp add: PointCloudScanner_init_def deque_new_def)

text \<open>
  C1.  A visualizer built with a capacity \<open>max_points\<close> never holds more than
  \<open>max_points\<close> points: not after any sequence of calls that add readings, and not
  after any number of iterations of the loop of a further call.  The same holds for every
  prefix of a sequence of appends to the deque itself.  The constructors return for every
  \<open>max_points\<close> that is not negative; on a negative one the deque raises.
\<close>

theorem point_buffer_bounded:
  assumes "0 \<le> max_points"
  shows "(\<exists>d. deque_new max_points = Inr d \<and>
            (\<forall>n. int (length (items (foldl deque_append d (take n ps)))) \<le> max_points))
       \<and> (\<exists>rv. RadarVisualizer_init max_points max_dist demo = Inr rv \<and>
            (\<forall>rs g k theta dist_cm now g'.
               int (length (items (rv_points (fst (radar_feed rv rs g))))) \<le> max_points \<and>
               int (length (items (fst (add_point_scatter k theta dist_cm now
                      (rv_points (fst (radar_feed rv rs g))) g')))) \<le> max_points))
       \<and> (\<exists>lv. LidarVisualizer_init max_points max_dist = Inr lv \<and>
            (\<forall>cs g k theta dist_cm now g' hits.
               int (length (items (lv_points (fst (lidar_feed lv cs g))))) \<le> max_points \<and>
               int (length (items (fst (lidar_beam k theta dist_cm now
                      (lv_points (fst (lidar_feed lv cs g))) g')))) \<le> max_points \<and>
               int (length (items (add_points_loop max_dist now hits
                      (lv_points (fst (lidar_feed lv cs g)))))) \<le> max_points))
       \<and> (\<exists>pc. PointCloudScanner_init max_points max_dist fov = Inr pc \<and>
            (\<forall>qs g pc' g' k b_x b_y b_s dst now g''.
               pc_feed pc qs g = Inr (pc', g') \<longrightarrow>
               int (length (items (pc_points pc'))) \<le> max_points \<and>
               int (length (items (fst (beam_points k pc' b_x b_y b_s dst now
                      (pc_points pc') g'')))) \<le> max_points))"
proof (intro conjI)
  let ?m = "nat max_points"
  have le: "int n \<le> max_points" if "n \<le> ?m" for n using that assms by linarith
  show "\<exists>d. deque_new max_points = Inr d \<and>
            (\<forall>n. int (length (items (foldl deque_append d (take n ps)))) \<le> max_points)"
  proof (intro exI conjI allI)
    show "deque_new max_points = Inr \<lparr>maxlen = ?m, items = []\<rparr>"
      using assms by (rule deque_new_Inr)
    fix n
    have "length (items (foldl deque_append \<lparr>maxlen = ?m, items = []\<rparr> (take n ps))) \<le> ?m"
      using foldl_deque_append_bound [of "\<lparr>maxlen = ?m, items = []\<rparr>" "take n ps"] by simp
    then show "int (length (items (foldl deque_append \<lparr>maxlen = ?m, items = []\<rparr> (take n ps))))
               \<le> max_points" by (rule le)
  qed
  show "\<exists>rv. RadarVisualizer_init max_points max_dist demo = Inr rv \<and>
            (\<forall>rs g k theta dist_cm now g'.
               int (length (items (rv_points (fst (radar_feed rv rs g))))) \<le> max_points \<and>
               int (length (items (fst (add_point_scatter k theta dist_cm now
                      (rv_points (fst (radar_feed rv rs g))) g')))) \<le> max_points)"
  proof -
    from RadarVisualizer_init_Inr [OF assms] obtain rv
      where rv: "RadarVisualizer_init max_points max_dist demo = Inr rv"
        and m: "maxlen (rv_points rv) = ?m" and e: "items (rv_points rv) = []" by blast
    have inv0: "length (items (rv_points rv)) \<le> maxlen (rv_points rv)" by (simp add: e)
    have "int (length (items (rv_points (fst (radar_feed rv rs g))))) \<le> max_points \<and>
          int (length (items (fst (add_point_scatter k theta dist_cm now
                 (rv_points (fst (radar_feed rv rs g))) g')))) \<le> max_points"
      for rs g k theta dist_cm now g'
    proof -
      from radar_feed_inv [OF inv0, of rs g]
      have a: "length (items (rv_points (fst (radar_feed rv rs g)))) \<le> ?m"
        and b: "maxlen (rv_points (fst (radar_feed rv rs g))) = ?m" by (simp_all add: m)
      from add_point_scatter_inv [OF b a, of k theta dist_cm now g'] a
      show ?thesis by (simp add: le)
    qed
    with rv show ?thesis by blast
  qed
  show "\<exists>lv. LidarVisualizer_init max_points max_dist = Inr lv \<and>
            (\<forall>cs g k theta dist_cm now g' hits.
               int (length (items (lv_points (fst (lidar_feed lv cs g))))) \<le> max_points \<and>
               int (length (items (fst (lidar_beam k theta dist_cm now
                      (lv_points (fst (lidar_feed lv cs g))) g')))) \<le> max_points \<and>
               int (length (items (add_points_loop max_dist now hits
                      (lv_points (fst (lidar_feed lv cs g)))))) \<le> max_points)"
  proof -
    from LidarVisualizer_init_Inr [OF assms] obtain lv
      where lv: "LidarVisualizer_init max_points max_dist = Inr lv"
        and m: "maxlen (lv_points lv) = ?m" and e: "items (lv_points lv) = []" by blast
    have inv0: "length (items (lv_points lv)) \<le> maxlen (lv_points lv)" by (simp add: e)
    have "int (length (items (lv_points (fst (lidar_feed lv cs g))))) \<le> max_points \<and>
          int (length (items (fst (lidar_beam k theta dist_cm now
                 (lv_points (fst (lidar_feed lv cs g))) g')))) \<le> max_points \<and>
          int (length (items (add_points_loop max_dist now hits
                 (lv_points (fst (lidar_feed lv cs g)))))) \<le> max_points"
      for cs g k theta dist_cm now g' hits
    proof -
      from lidar_feed_inv [OF inv0, of cs g]
      have a: "length (items (lv_points (fst (lidar_feed lv cs g)))) \<le> ?m"
        and b: "maxlen (lv_points (fst (lidar_feed lv cs g))) = ?m" by (simp_all add: m)
      from lidar_beam_inv [OF b a, of k theta dist_cm now g']
        add_points_loop_inv [OF b a, of max_dist now hits] a
      show ?thesis by (simp add: le)
    qed
    with lv show ?thesis by blast
  qed
  show "\<exists>pc. PointCloudScanner_init max_points max_dist fov = Inr pc \<and>
            (\<forall>qs g pc' g' k b_x b_y b_s dst now g''.
               pc_feed pc qs g = Inr (pc', g') \<longrightarrow>
               int (length (items (pc_points pc'))) \<le> max_points \<and>
               int (length (items (fst (beam_points k pc' b_x b_y b_s dst now
                      (pc_points pc') g'')))) \<le> max_points)"
  proof -
    from PointCloudScanner_init_Inr [OF assms] obtain pc
      where pc: "PointCloudScanner_init max_points max_dist fov = Inr pc"
        and m: "maxlen (pc_points pc) = ?m" and e: "items (pc_points pc) = []" by blast
    have inv0: "length (items (pc_points pc)) \<le> maxlen (pc_points pc)" by (simp add: e)
    have "int (length (items (pc_points pc'))) \<le> max_points \<and>
          int (length (items (fst (beam_points k pc' b_x b_y b_s dst now
                 (pc_points pc') g'')))) \<le> max_points"
      if run: "pc_feed pc qs g = Inr (pc', g')" for qs g pc' g' k b_x b_y b_s dst now g''
    proof -
      from pc_feed_inv [OF inv0 run]
      have a: "length (items (pc_points pc')) \<le> ?m"
        and b: "maxlen (pc_points pc') = ?m" by (simp_all add: m)
      from beam_points_inv [OF b a, of k pc' b_x b_y b_s dst now g''] a
      show ?thesis by (simp add: le)
    qed
    with pc show ?thesis by blast
  qed
qed


theorem point_buffer_bounded_witness:
  "(0::int) \<le> 2 \<and>
   (\<exists>rv. RadarVisualizer_init 2 200 True = Inr rv \<and>
      int (length (items (rv_points (fst (radar_feed rv [(0, 100, 0), (90, 50, 1)] (\<lambda>n. 0))))))
        \<le> 2)"
proof -
  have h: "(0::int) \<le> 2" by simp
  note point_buffer_bounded
         [OF h, where ps = "[]::nat list" and max_dist = 200 and demo = True and fov = 90]
  then have "\<exists>rv. RadarVisualizer_init 2 200 True = Inr rv \<and>
            (\<forall>rs g k theta dist_cm now g'.
               int (length (items (rv_points (fst (radar_feed rv rs g))))) \<le> 2 \<and>
               int (length (items (fst (add_point_scatter k theta dist_cm now
                      (rv_points (fst (radar_feed rv rs g))) g')))) \<le> 2)"
    by (elim conjE)
  then obtain rv where rv: "RadarVisualizer_init 2 200 True = Inr rv"
    and b: "\<And>rs g. int (length (items (rv_points (fst (radar_feed rv rs g))))) \<le> 2"
    by (elim exE conjE) simp
  show ?thesis by (intro conjI exI [of _ rv]) (rule h, rule rv, rule b)
qed

lemma foldl_deque_append_new:
  assumes "deque_new max_points = Inr d"
  shows "items (foldl deque_append d ps) = drop (length ps - nat max_points) ps"
    and "maxlen (foldl deque_append d ps) = nat max_points"
proof -
  from assms have d: "d = \<lparr>maxlen = nat max_points, items = []\<rparr>"
    by (simp add: deque_new_def split: if_splits)
  show "items (foldl deque_append d ps) = drop (length ps - nat max_points) ps"
    using foldl_deque_append_drop [of d ps] by (simp add: d)
  show "maxlen (foldl deque_append d ps) = nat max_points"
    by (simp add: foldl_deque_append_maxlen d)
qed

lemma sr_feed_items:
  assumes "length (items (sr_points self)) \<le> maxlen (sr_points self)"
    and "\<forall>(d, s, now) \<in> set rs. 2 < d \<and> d < MAX_RANGE"
  shows "sr_points (sr_feed self rs) =
         foldl deque_append (sr_points self)
           (map (\<lambda>(d, s, now). \<lparr>distance = d, timestamp = now\<rparr>) rs)"
  using assms
proof (induction self rs rule: sr_feed.induct)
  case (1 self)
  then show ?case by simp
next
  case (2 self d s now rs)
  from "2.prems"(2) have ok: "2 < d \<and> d < MAX_RANGE" by simp
  have step: "sr_points (read_data self d s now)
              = deque_append (sr_points self) \<lparr>distance = d, timestamp = now\<rparr>"
    using ok by (simp add: read_data_def Let_def)
  have inv: "length (items (sr_points (read_data self d s now)))
             \<le> maxlen (sr_points (read_data self d s now))"
    using "2.prems"(1) by (simp add: step deque_append_bound deque_append_maxlen)
  from "2.IH" [OF inv] "2.prems"(2) show ?case by (simp add: step)
qed

text \<open>
  C3.  After the points \<open>ps\<close> are appended in order to a new buffer of capacity
  \<open>max_points\<close>, the buffer holds the last \<open>max_points\<close> of them in their order.
  When more than \<open>max_points\<close> were appended (and the capacity is positive) the buffer
  is full, its oldest point is \<open>ps ! (length ps - max_points)\<close>, which is
  \<open>p\<^bsub>k-max_points+1\<^esub>\<close> counting from one, and one more append removes exactly
  that oldest point.  The buffer of \<^verbatim>\<open>SonarRadar\<close>, whose capacity is
  \<^verbatim>\<open>MAX_POINTS\<close>, holds the last \<^verbatim>\<open>MAX_POINTS\<close> accepted readings.
\<close>

theorem fifo_eviction:
  assumes "deque_new max_points = Inr d"
  shows "items (foldl deque_append d ps) = drop (length ps - nat max_points) ps
       \<and> (0 < max_points \<and> max_points < int (length ps) \<longrightarrow>
            length (items (foldl deque_append d ps)) = nat max_points \<and>
            hd (items (foldl deque_append d ps)) = ps ! (length ps - nat max_points) \<and>
            (\<forall>x. items (deque_append (foldl deque_append d ps) x)
                   = tl (items (foldl deque_append d ps)) @ [x]))
       \<and> (\<forall>sr. SonarRadar_init = Inr sr \<longrightarrow>
            (\<forall>(dst, s, now) \<in> set rs. 2 < dst \<and> dst < MAX_RANGE) \<longrightarrow>
            items (sr_points (sr_feed sr rs))
              = drop (length rs - nat MAX_POINTS)
                  (map (\<lambda>(dst, s, now). \<lparr>distance = dst, timestamp = now\<rparr>) rs))"
proof (intro conjI impI allI)
  let ?e = "foldl deque_append d ps"
  show items: "items ?e = drop (length ps - nat max_points) ps"
    by (rule foldl_deque_append_new [OF assms])
  have m: "maxlen ?e = nat max_points" by (rule foldl_deque_append_new [OF assms])
  {
    assume k: "0 < max_points \<and> max_points < int (length ps)"
    then have lt: "nat max_points < length ps" and pos: "0 < nat max_points" by linarith+
    show len: "length (items ?e) = nat max_points" using lt by (simp add: items)
    show "hd (items ?e) = ps ! (length ps - nat max_points)"
      using lt pos by (simp add: items hd_drop_conv_nth)
    fix x
    show "items (deque_append ?e x) = tl (items ?e) @ [x]"
      using deque_append_full [of ?e x] len pos by (simp add: m)
  }
  fix sr
  assume sr: "SonarRadar_init = Inr sr"
    and ok: "\<forall>(dst, s, now) \<in> set rs. 2 < dst \<and> dst < MAX_RANGE"
  from sr have new: "deque_new MAX_POINTS = Inr (sr_points sr)"
    by (auto simp add: SonarRadar_init_def split: sum.splits)
  then have "sr_points sr = \<lparr>maxlen = nat MAX_POINTS, items = []\<rparr>"
    by (simp add: deque_new_def split: if_splits)
  then have "length (items (sr_points sr)) \<le> maxlen (sr_points sr)" by simp
  from sr_feed_items [OF this ok] foldl_deque_append_new(1) [OF new]
  show "items (sr_points (sr_feed sr rs))
        = drop (length rs - nat MAX_POINTS)
            (map (\<lambda>(dst, s, now). \<lparr>distance = dst, timestamp = now\<rparr>) rs)"
    by simp
qed

theorem fifo_eviction_witness:
  "deque_new 3 = Inr \<lparr>maxlen = 3, items = []\<rparr> \<and>
   items (foldl deque_append \<lparr>maxlen = 3, items = []\<rparr> [1, 2, 3, 4, 5 :: nat]) = [3, 4, 5] \<and>
   hd (items (foldl deque_append \<lparr>maxlen = 3, items = []\<rparr> [1, 2, 3, 4, 5 :: nat])) = 3 \<and>
   items (deque_append (foldl deque_append \<lparr>maxlen = 3, items = []\<rparr> [1, 2, 3, 4, 5 :: nat]) 6)
     = [4, 5, 6] \<and>
   SonarRadar_init = Inr \<lparr>sr_points = \<lparr>maxlen = 500, items = []\<rparr>, sr_current_distance = 0,
                           sr_state = ''STOP'', sr_last_reading_time = 0\<rparr> \<and>
   items (sr_points (sr_feed \<lparr>sr_points = \<lparr>maxlen = 500, items = []\<rparr>,
                              sr_current_distance = 0, sr_state = ''STOP'',
                              sr_last_reading_time = 0\<rparr>
                      [(100, ''FWD'', 1), (50, ''FWD'', 3)]))
     = [\<lparr>distance = 100, timestamp = 1\<rparr>, \<lparr>distance = 50, timestamp = 3\<rparr>]"
proof -
  have h: "deque_new 3 = Inr \<lparr>maxlen = 3, items = []\<rparr>" by (simp add: deque_new_def)
  have i: "SonarRadar_init = Inr \<lparr>sr_points = \<lparr>maxlen = 500, items = []\<rparr>,
             sr_current_distance = 0, sr_state = ''STOP'', sr_last_reading_time = 0\<rparr>"
    by (simp add: SonarRadar_init_def deque_new_def MAX_POINTS_def)
  have ok: "\<forall>(dst, s, now) \<in> set [(100, ''FWD'', 1), (50, ''FWD'', 3)]. 2 < dst \<and> dst < MAX_RANGE"
    by (simp add: MAX_RANGE_def)
  note t = fifo_eviction [OF h, of "[1, 2, 3, 4, 5 :: nat]" "[(100, ''FWD'', 1), (50, ''FWD'', 3)]"]
  have a: "items (foldl deque_append \<lparr>maxlen = 3, items = []\<rparr> [1, 2, 3, 4, 5 :: nat]) = [3, 4, 5]"
    using t by simp
  have b: "hd (items (foldl deque_append \<lparr>maxlen = 3, items = []\<rparr> [1, 2, 3, 4, 5 :: nat])) = 3"
    using t by simp
  have c: "items (deque_append (foldl deque_append \<lparr>maxlen = 3, items = []\<rparr> [1, 2, 3, 4, 5 :: nat]) 6)
            = [4, 5, 6]"
    using t a by simp
  have d: "items (sr_points (sr_feed \<lparr>sr_points = \<lparr>maxlen = 500, items = []\<rparr>,
                              sr_current_distance = 0, sr_state = ''STOP'',
                              sr_last_reading_time = 0\<rparr>
                      [(100, ''FWD'', 1), (50, ''FWD'', 3)]))
            = [\<lparr>distance = 100, timestamp = 1\<rparr>, \<lparr>distance = 50, timestamp = 3\<rparr>]"
    using conjunct2 [OF conjunct2 [OF t]] i ok by (simp add: MAX_POINTS_def)
  show ?thesis by (intro conjI) (rule h a b c i d)+
qed

subsection \<open>The visible points\<close>














subsection \<open>The reading filter\<close>

lemma trim_eq_drop:
  "length ys \<le> Suc n \<Longrightarrow> (if n < length ys then tl ys else ys) = drop (length ys - n) ys"
proof (cases "n < length ys")
  case True
  assume "length ys \<le> Suc n"
  with True have "length ys - n = Suc 0" by simp
  with True show ?thesis by (simp add: drop_Suc)
next
  case False
  then show ?thesis by simp
qed

lemma filter_length_mono:
  "(\<And>x. x \<in> set xs \<Longrightarrow> P x \<Longrightarrow> Q x) \<Longrightarrow> length (filter P xs) \<le> length (filter Q xs)"
  by (induction xs) auto

lemma sorted_middle_is_median:
  fixes xs :: "real list"
  assumes "xs \<noteq> []"
  shows "is_median (sort xs ! (length xs div 2)) xs"
proof -
  define s where "s = sort xs"
  define k where "k = length xs div 2"
  define m where "m = s ! k"
  have len: "length s = length xs" by (simp add: s_def)
  have k: "k < length s" using assms by (simp add: k_def len)
  have srt: "sorted s" by (simp add: s_def)
  have mem: "m \<in> set xs"
    using k nth_mem [of k s] by (simp add: m_def s_def)
  have low: "Suc k \<le> length (filter (\<lambda>x. x \<le> m) s)"
  proof -
    have "\<forall>x \<in> set (take (Suc k) s). x \<le> m"
    proof
      fix x assume "x \<in> set (take (Suc k) s)"
      then obtain i where "i < Suc k" "i < length s" "x = s ! i"
        by (auto simp add: in_set_conv_nth)
      then show "x \<le> m" using srt k by (simp add: m_def sorted_nth_mono)
    qed
    then have "filter (\<lambda>x. x \<le> m) (take (Suc k) s) = take (Suc k) s" by simp
    then have "length (filter (\<lambda>x. x \<le> m) (take (Suc k) s)) = Suc k" using k by simp
    moreover have "length (filter (\<lambda>x. x \<le> m) (take (Suc k) s))
                   \<le> length (filter (\<lambda>x. x \<le> m) (take (Suc k) s @ drop (Suc k) s))"
      by (simp only: filter_append length_append)
    ultimately show ?thesis by simp
  qed
  have high: "length s - k \<le> length (filter (\<lambda>x. m \<le> x) s)"
  proof -
    have "\<forall>x \<in> set (drop k s). m \<le> x"
    proof
      fix x assume "x \<in> set (drop k s)"
      then obtain i where "i < length s - k" "x = s ! (k + i)"
        by (auto simp add: in_set_conv_nth)
      then show "m \<le> x" using srt by (simp add: m_def sorted_nth_mono)
    qed
    then have "filter (\<lambda>x. m \<le> x) (drop k s) = drop k s" by simp
    then have "length (filter (\<lambda>x. m \<le> x) (drop k s)) = length s - k" by simp
    moreover have "length (filter (\<lambda>x. m \<le> x) (drop k s))
                   \<le> length (filter (\<lambda>x. m \<le> x) (take k s @ drop k s))"
      by (simp only: filter_append length_append)
    ultimately show ?thesis by simp
  qed
  have cnt: "length (filter P s) = length (filter P xs)" for P
    by (simp add: s_def filter_sort)
  have "length xs \<le> 2 * Suc k" by (simp add: k_def)
  with low have a: "length xs \<le> 2 * length (filter (\<lambda>x. x \<le> m) xs)" by (simp add: cnt)
  have "length xs \<le> 2 * (length s - k)" by (simp add: k_def len)
  with high have b: "length xs \<le> 2 * length (filter (\<lambda>x. m \<le> x) xs)" by (simp add: cnt)
  from mem a b show ?thesis by (simp add: is_median_def m_def s_def k_def)
qed

lemma median_unique_odd:
  assumes "odd (length xs)" and "is_median m xs" and "is_median m' xs"
  shows "m = m'"
proof -
  have False if lt: "a < b" and ma: "is_median a xs" and mb: "is_median b xs" for a b
  proof -
    have "length (filter (\<lambda>x. b \<le> x) xs) \<le> length (filter (\<lambda>x. \<not> x \<le> a) xs)"
      using lt by (intro filter_length_mono) simp
    moreover have "length (filter (\<lambda>x. x \<le> a) xs) + length (filter (\<lambda>x. \<not> x \<le> a) xs)
                   = length xs"
      by (rule sum_length_filter_compl)
    ultimately have "length (filter (\<lambda>x. x \<le> a) xs) + length (filter (\<lambda>x. b \<le> x) xs)
                     \<le> length xs" by simp
    moreover from ma mb have "length xs \<le> 2 * length (filter (\<lambda>x. x \<le> a) xs)"
      and "length xs \<le> 2 * length (filter (\<lambda>x. b \<le> x) xs)" by (simp_all add: is_median_def)
    ultimately have "2 * length (filter (\<lambda>x. x \<le> a) xs) = length xs" by linarith
    with assms(1) show False by (metis dvd_triv_left)
  qed
  from this [of m m'] this [of m' m] assms(2,3) show ?thesis by (cases m m' rule: linorder_cases) auto
qed


lemma sort_eq_Nil_iff: "sort xs = [] \<longleftrightarrow> xs = []"
  by (simp only: length_0_conv [symmetric] length_sort)

lemma sp_add_reading_Inr:
  assumes "0 < sp_history_size self"
  shows "\<exists>s'. sp_add_reading self dst st now = Inr s' \<and>
           sp_reading_history s' =
             (if sp_history_size self
                   < length (sp_reading_history self @ [max 2 (min dst (sp_max_dist self * 1.1))])
              then tl (sp_reading_history self @ [max 2 (min dst (sp_max_dist self * 1.1))])
              else sp_reading_history self @ [max 2 (min dst (sp_max_dist self * 1.1))]) \<and>
           sp_target_dist s' = sort (sp_reading_history s') ! (length (sp_reading_history s') div 2) \<and>
           sp_history_size s' = sp_history_size self \<and>
           sp_max_dist s' = sp_max_dist self \<and>
           sp_scan_count s' = sp_scan_count self + 1"
proof (cases "sp_reading_history self")
  case Nil
  with assms show ?thesis by (simp add: sp_add_reading_def Let_def sort_eq_Nil_iff)
next
  case (Cons x xs)
  then show ?thesis by (simp add: sp_add_reading_def Let_def sort_eq_Nil_iff)
qed

lemma sp_feed_window:
  assumes "sp_history_size self = 5" and "length (sp_reading_history self) \<le> 5"
    and "sp_max_dist self = md"
  shows "\<exists>s'. sp_feed self rs = Inr s' \<and>
           sp_reading_history s' =
             drop (length (sp_reading_history self) + length rs - 5)
               (sp_reading_history self
                  @ map (\<lambda>(dst, st, now). max 2 (min dst (md * 1.1))) rs) \<and>
           (rs \<noteq> [] \<longrightarrow>
              sp_target_dist s' = sort (sp_reading_history s') ! (length (sp_reading_history s') div 2))"
  using assms
proof (induction self rs rule: sp_feed.induct)
  case (1 self)
  then show ?case by simp
next
  case (2 self dst st now rs)
  define c where "c = max 2 (min dst (md * 1.1))"
  define h where "h = sp_reading_history self @ [c]"
  define cs where "cs = map (\<lambda>(dst, st, now). max 2 (min dst (md * 1.1))) rs"
  note z = "2.prems"(1) and m = "2.prems"(3)
  have pos: "0 < sp_history_size self" by (simp add: z)
  from sp_add_reading_Inr [OF pos, of dst st now, unfolded z m] obtain s1
    where step: "sp_add_reading self dst st now = Inr s1"
      and h1: "sp_reading_history s1 = (if 5 < length h then tl h else h)"
      and t1: "sp_target_dist s1 = sort (sp_reading_history s1) ! (length (sp_reading_history s1) div 2)"
      and z1: "sp_history_size s1 = 5" and m1: "sp_max_dist s1 = md"
    unfolding h_def c_def by blast
  have lh: "length h \<le> Suc 5" using "2.prems"(2) by (simp add: h_def)
  have h1': "sp_reading_history s1 = drop (length h - 5) h"
    using trim_eq_drop [OF lh] by (simp add: h1)
  have l1: "length (sp_reading_history s1) \<le> 5" using lh by (simp add: h1')
  from "2.IH" [OF step z1 l1 m1] obtain s'
    where run: "sp_feed s1 rs = Inr s'"
      and hist: "sp_reading_history s' =
                   drop (length (sp_reading_history s1) + length rs - 5) (sp_reading_history s1 @ cs)"
      and tgt: "rs \<noteq> [] \<longrightarrow>
                sp_target_dist s' = sort (sp_reading_history s') ! (length (sp_reading_history s') div 2)"
    unfolding cs_def by blast
  have "sp_reading_history s1 @ cs = drop (length h - 5) (h @ cs)"
    by (simp add: h1')
  then have "sp_reading_history s' =
               drop (length (drop (length h - 5) h) + length rs - 5) (drop (length h - 5) (h @ cs))"
    using hist by (simp add: h1')
  also have "\<dots> = drop (length h + length rs - 5) (h @ cs)"
  proof -
    have "length (drop (length h - 5) h) + length rs - 5 + (length h - 5) = length h + length rs - 5"
      using lh by simp
    then show ?thesis by (simp only: drop_drop)
  qed
  also have "length h + length rs = length (sp_reading_history self) + length ((dst, st, now) # rs)"
    by (simp add: h_def)
  also have "h @ cs = sp_reading_history self
                        @ map (\<lambda>(dst, st, now). max 2 (min dst (md * 1.1))) ((dst, st, now) # rs)"
    by (simp add: h_def cs_def c_def)
  finally have hist': "sp_reading_history s' =
      drop (length (sp_reading_history self) + length ((dst, st, now) # rs) - 5)
        (sp_reading_history self
           @ map (\<lambda>(dst, st, now). max 2 (min dst (md * 1.1))) ((dst, st, now) # rs))" .
  have tgt': "sp_target_dist s' = sort (sp_reading_history s') ! (length (sp_reading_history s') div 2)"
  proof (cases "rs = []")
    case True
    with run have "s' = s1" by simp
    with t1 show ?thesis by simp
  next
    case False
    with tgt show ?thesis by simp
  qed
  have run': "sp_feed self ((dst, st, now) # rs) = Inr s'" by (simp add: step run)
  show ?case by (intro exI [of _ s'] conjI impI) (rule run' hist' tgt')+
qed

lemma build_gradient_Inr: "\<exists>cs. build_gradient = Inr cs"
  by (simp add: build_gradient_def build_gradient_from_def keypoints_def)

lemma SonarPulse_init_Inr:
  "\<exists>s0. SonarPulse_init width height max_dist = Inr s0 \<and> sp_reading_history s0 = [] \<and>
        sp_history_size s0 = 5 \<and> sp_max_dist s0 = max_dist \<and> sp_scan_count s0 = 0"
proof -
  from build_gradient_Inr obtain cs where c: "build_gradient = Inr cs" by blast
  show ?thesis unfolding SonarPulse_init_def c by simp
qed

text \<open>
C7.  Fed any sequence of readings from its initial state, \<^verbatim>\<open>add_reading\<close> returns,
  its window is the last five of the samples pushed so far (each clamped to the range
  from 2 to \<^verbatim>\<open>1.1 * max_dist\<close>), oldest first, so it never holds more than five,
  and after every push the target is the element in the middle of the sorted window.
  That element is a median of the window; when the window has an odd number of samples,
  as the full window of five has, it is the only one.  When the number is even the
  source takes the upper of the two middle samples.
\<close>

theorem reading_filter_median:
  "\<exists>s0 s. SonarPulse_init width height max_dist = Inr s0 \<and> sp_feed s0 rs = Inr s \<and>
      sp_reading_history s =
        drop (length rs - 5) (map (\<lambda>(dst, st, now). max 2 (min dst (max_dist * 1.1))) rs) \<and>
      length (sp_reading_history s) \<le> 5 \<and>
      (rs \<noteq> [] \<longrightarrow>
         sp_target_dist s = sort (sp_reading_history s) ! (length (sp_reading_history s) div 2) \<and>
         is_median (sp_target_dist s) (sp_reading_history s) \<and>
         (odd (length (sp_reading_history s)) \<longrightarrow>
            (\<forall>m. is_median m (sp_reading_history s) \<longrightarrow> m = sp_target_dist s)))"
proof -
  from SonarPulse_init_Inr [of width height max_dist] obtain s0
    where i: "SonarPulse_init width height max_dist = Inr s0"
      and e: "sp_reading_history s0 = []" and z: "sp_history_size s0 = 5"
      and m: "sp_max_dist s0 = max_dist" by blast
  have l: "length (sp_reading_history s0) \<le> 5" by (simp add: e)
  from sp_feed_window [OF z l m, of rs] obtain s
    where run: "sp_feed s0 rs = Inr s"
      and hist: "sp_reading_history s =
                   drop (length rs - 5) (map (\<lambda>(dst, st, now). max 2 (min dst (max_dist * 1.1))) rs)"
      and tgt: "rs \<noteq> [] \<longrightarrow>
                sp_target_dist s = sort (sp_reading_history s) ! (length (sp_reading_history s) div 2)"
    by (auto simp add: e)
  have len: "length (sp_reading_history s) \<le> 5" by (simp add: hist)
  have med: "is_median (sp_target_dist s) (sp_reading_history s)" if "rs \<noteq> []"
  proof -
    from that have "length rs - 5 < length rs" by (cases rs) simp_all
    then have "sp_reading_history s \<noteq> []" by (simp add: hist)
    from sorted_middle_is_median [OF this] tgt that show ?thesis by simp
  qed
  have uniq: "m = sp_target_dist s"
    if "rs \<noteq> []" "odd (length (sp_reading_history s))" "is_median m (sp_reading_history s)" for m
    using median_unique_odd [OF that(2) that(3) med [OF that(1)]] .
  from i run hist len tgt med uniq show ?thesis by blast
qed

theorem reading_filter_median_witness:
  "\<exists>s0 s. SonarPulse_init 1200 800 150 = Inr s0 \<and>
      sp_feed s0 [(10, ''DRIVE'', 0), (50, ''DRIVE'', 1), (30, ''DRIVE'', 2), (20, ''DRIVE'', 3),
                  (40, ''DRIVE'', 4), (25, ''DRIVE'', 5)] = Inr s \<and>
      sp_reading_history s = [50, 30, 20, 40, 25] \<and> sp_target_dist s = 30 \<and>
      is_median 30 [50, 30, 20, 40, 25]"
proof -
  let ?rs = "[(10, ''DRIVE'', 0), (50, ''DRIVE'', 1), (30, ''DRIVE'', 2), (20, ''DRIVE'', 3),
              (40, ''DRIVE'', 4), (25::real, ''DRIVE'', 5::real)]"
  from reading_filter_median [of 1200 800 150 ?rs]
  obtain s0 s where i: "SonarPulse_init 1200 800 150 = Inr s0"
    and run: "sp_feed s0 ?rs = Inr s"
    and hist0: "sp_reading_history s =
                  drop (length ?rs - 5) (map (\<lambda>(dst, st, now). max 2 (min dst (150 * 1.1))) ?rs)"
    and rest: "?rs \<noteq> [] \<longrightarrow>
         sp_target_dist s = sort (sp_reading_history s) ! (length (sp_reading_history s) div 2) \<and>
         is_median (sp_target_dist s) (sp_reading_history s) \<and>
         (odd (length (sp_reading_history s)) \<longrightarrow>
            (\<forall>m. is_median m (sp_reading_history s) \<longrightarrow> m = sp_target_dist s))"
    by blast
  from hist0 have hist: "sp_reading_history s = [50, 30, 20, 40, 25]" by simp
  from rest have tgt: "sp_target_dist s = sort (sp_reading_history s) ! (length (sp_reading_history s) div 2)"
    and med: "is_median (sp_target_dist s) (sp_reading_history s)" by blast+
  from tgt have t: "sp_target_dist s = 30" by (simp add: hist)
  from med have m: "is_median 30 [50, 30, 20, 40, 25]" by (simp only: t hist)
  show ?thesis by (intro exI [of _ s0] exI [of _ s] conjI) (rule i run hist t m)+
qed

lemma sp_feed_clamped:
  assumes "SonarPulse_init width height max_dist = Inr s0" and "sp_feed s0 rs = Inr s"
  shows "\<forall>x \<in> set (sp_reading_history s). 2 \<le> x"
proof -
  from SonarPulse_init_Inr [of width height max_dist] assms(1)
  have e: "sp_reading_history s0 = []" and z: "sp_history_size s0 = 5"
    and m: "sp_max_dist s0 = max_dist" by auto
  have l: "length (sp_reading_history s0) \<le> 5" by (simp add: e)
  from sp_feed_window [OF z l m, of rs] assms(2)
  have "sp_reading_history s =
          drop (length rs - 5) (map (\<lambda>(dst, st, now). max 2 (min dst (max_dist * 1.1))) rs)"
    by (auto simp add: e)
  then have "set (sp_reading_history s)
             \<subseteq> set (map (\<lambda>(dst, st, now). max 2 (min dst (max_dist * 1.1))) rs)"
    by (simp only: set_drop_subset)
  then show ?thesis by auto
qed

text \<open>
C6, as the code has it.  A zero or negative distance is not kept out of the window:
  \<^verbatim>\<open>add_reading\<close> clamps it to 2, the lower end of the range it calls valid, and
  pushes the 2 as the newest sample, removing the oldest sample when that makes the
  window longer than \<^verbatim>\<open>history_size\<close>.  The distance itself is never stored: every
  sample in a window fed from the initial state is at least 2.
\<close>

theorem nonpositive_reading_clamped:
  assumes "dst \<le> 0" and "0 < sp_history_size self"
  shows "(\<exists>s'. sp_add_reading self dst st now = Inr s' \<and>
            sp_reading_history s' =
              (if sp_history_size self < length (sp_reading_history self @ [2])
               then tl (sp_reading_history self @ [2])
               else sp_reading_history self @ [2]) \<and>
            last (sp_reading_history s') = 2)
       \<and> (\<forall>s0 s. SonarPulse_init width height max_dist = Inr s0 \<longrightarrow> sp_feed s0 rs = Inr s \<longrightarrow>
              (\<forall>x \<in> set (sp_reading_history s). 2 \<le> x))"
proof (intro conjI allI impI)
  from assms(1) have c: "max 2 (min dst (sp_max_dist self * 1.1)) = 2" by (simp add: max_def min_def)
  from sp_add_reading_Inr [OF assms(2), of dst st now, unfolded c] obtain s'
    where step: "sp_add_reading self dst st now = Inr s'"
      and hist: "sp_reading_history s' =
              (if sp_history_size self < length (sp_reading_history self @ [2])
               then tl (sp_reading_history self @ [2])
               else sp_reading_history self @ [2])" by blast
  have "last (sp_reading_history s') = 2"
  proof (cases "sp_reading_history self")
    case Nil
    with assms(2) show ?thesis by (simp add: hist)
  next
    case (Cons x xs)
    then show ?thesis by (simp add: hist)
  qed
  with step hist
  show "\<exists>s'. sp_add_reading self dst st now = Inr s' \<and>
            sp_reading_history s' =
              (if sp_history_size self < length (sp_reading_history self @ [2])
               then tl (sp_reading_history self @ [2])
               else sp_reading_history self @ [2]) \<and>
            last (sp_reading_history s') = 2" by blast
next
  fix s0 s
  assume "SonarPulse_init width height max_dist = Inr s0" and "sp_feed s0 rs = Inr s"
  then show "\<forall>x \<in> set (sp_reading_history s). 2 \<le> x" by (rule sp_feed_clamped)
qed

text \<open>
C6 as stated fails: in the initial state the window is empty, and after a reading of
  -5 it holds the sample 2, which is also the new target.
\<close>

theorem nonpositive_reading_enters_window:
  "(case SonarPulse_init 1200 800 150 of
      Inl e \<Rightarrow> None
    | Inr s0 \<Rightarrow>
        (case sp_add_reading s0 (- 5) [] 0 of
           Inl e \<Rightarrow> None
         | Inr s \<Rightarrow> Some (sp_reading_history s0, sp_reading_history s, sp_target_dist s)))
   = Some ([], [2], 2)"
proof -
  from SonarPulse_init_Inr [of 1200 800 150] obtain s0
    where i: "SonarPulse_init 1200 800 150 = Inr s0"
      and e: "sp_reading_history s0 = []" and z: "sp_history_size s0 = 5" by blast
  have "0 < sp_history_size s0" by (simp add: z)
  from sp_add_reading_Inr [OF this, of "- 5" "[]" 0] obtain s
    where step: "sp_add_reading s0 (- 5) [] 0 = Inr s"
      and hist: "sp_reading_history s = [2]"
      and tgt: "sp_target_dist s = sort (sp_reading_history s) ! (length (sp_reading_history s) div 2)"
    by (auto simp add: e z)
  from tgt have "sp_target_dist s = 2" by (simp add: hist)
  with i step e hist show ?thesis by simp
qed

theorem nonpositive_reading_clamped_witness:
  "\<exists>s0 s. SonarPulse_init 1200 800 150 = Inr s0 \<and>
      sp_feed s0 [(40, ''DRIVE'', 0), (0, ''DRIVE'', 1)] = Inr s \<and>
      sp_reading_history s = [40, 2] \<and> (\<forall>x \<in> set (sp_reading_history s). 2 \<le> x)"
proof -
  from SonarPulse_init_Inr [of 1200 800 150] obtain s0
    where i: "SonarPulse_init 1200 800 150 = Inr s0"
      and e: "sp_reading_history s0 = []" and z: "sp_history_size s0 = 5"
      and m0: "sp_max_dist s0 = 150" by blast
  have p0: "0 < sp_history_size s0" by (simp add: z)
  from sp_add_reading_Inr [OF p0, of 40 "''DRIVE''" 0] obtain s1
    where s1: "sp_add_reading s0 40 ''DRIVE'' 0 = Inr s1"
      and h1: "sp_reading_history s1 = [40]"
      and z1: "sp_history_size s1 = 5"
    by (auto simp add: e z m0)
  have d: "(0::real) \<le> 0" by simp
  have p1: "0 < sp_history_size s1" by (simp add: z1)
  note t = nonpositive_reading_clamped [OF d p1, of "''DRIVE''" 1 1200 800 150
             "[(40, ''DRIVE'', 0), (0, ''DRIVE'', 1)]"]
  from t obtain s where s: "sp_add_reading s1 0 ''DRIVE'' 1 = Inr s"
    and h: "sp_reading_history s = [40, 2]"
    by (auto simp add: h1 z1)
  have run: "sp_feed s0 [(40, ''DRIVE'', 0), (0, ''DRIVE'', 1)] = Inr s" by (simp add: s1 s)
  from t i run have b: "\<forall>x \<in> set (sp_reading_history s). 2 \<le> x" by blast
  show ?thesis by (intro exI [of _ s0] exI [of _ s] conjI) (rule i run h b)+
qed

subsection \<open>The colour maps\<close>

lemma py_int_of_int: "py_int (real_of_int n) = n"
  by (simp add: py_int_def)

lemma gradient_mix_left: "gradient_mix k1 k2 (fst k1) = snd k1"
  by (cases k1; cases k2) (auto simp add: gradient_mix_def py_int_of_int)

lemma gradient_mix_right: "fst k1 < fst k2 \<Longrightarrow> gradient_mix k1 k2 (fst k2) = snd k2"
proof -
  assume lt: "fst k1 < fst k2"
  obtain t1 r1 g1 b1 where k1: "k1 = (t1, (r1, g1, b1))" by (cases k1) auto
  obtain t2 r2 g2 b2 where k2: "k2 = (t2, (r2, g2, b2))" by (cases k2) auto
  from lt have "(t2 - t1) / (t2 - t1) = 1" by (simp add: k1 k2)
  moreover have "real_of_int r1 + (real_of_int r2 - real_of_int r1) = real_of_int r2"
    and "real_of_int g1 + (real_of_int g2 - real_of_int g1) = real_of_int g2"
    and "real_of_int b1 + (real_of_int b2 - real_of_int b1) = real_of_int b2" by simp_all
  ultimately show ?thesis using lt
    by (simp add: gradient_mix_def k1 k2 py_int_of_int)
qed

lemma gradient_search_first:
  "fst k1 \<le> fst k2 \<Longrightarrow> gradient_search (k1 # k2 # ks) (fst k1) = Some (snd k1)"
  by (simp add: gradient_mix_left)

lemma gradient_search_last:
  "sorted_wrt (<) (map fst kps) \<Longrightarrow> 2 \<le> length kps \<Longrightarrow> t = fst (last kps) \<Longrightarrow>
   gradient_search kps t = Some (snd (last kps))"
proof (induction kps t rule: gradient_search.induct)
  case (1 k1 k2 ks t)
  show ?case
  proof (cases ks)
    case Nil
    with "1.prems" have "t = fst k2" and "fst k1 < fst k2" by simp_all
    with Nil show ?thesis by (simp add: gradient_mix_right)
  next
    case (Cons k3 ks')
    with "1.prems"(1,3) have lt: "fst k2 < t" by auto
    then have nb: "\<not> (fst k1 \<le> t \<and> t \<le> fst k2)" by simp
    from "1.prems"(1) have s: "sorted_wrt (<) (map fst (k2 # ks))" by simp
    from Cons have n: "2 \<le> length (k2 # ks)" by simp
    from "1.prems"(3) Cons have l: "t = fst (last (k2 # ks))" by simp
    have "gradient_search (k1 # k2 # ks) t = gradient_search (k2 # ks) t" using lt by simp
    also have "\<dots> = Some (snd (last (k2 # ks)))" by (rule "1.IH" [OF nb s n l])
    also have "last (k2 # ks) = last (k1 # k2 # ks)" by simp
    finally show ?thesis .
  qed
qed simp_all

lemma valid_keypoints_length: "valid_keypoints kps \<Longrightarrow> 2 \<le> length kps"
  by (cases kps; cases "tl kps") (auto simp add: valid_keypoints_def)

lemma valid_keypoints_first:
  assumes "valid_keypoints kps"
  shows "gradient_search kps 0 = Some (snd (hd kps))"
proof -
  from valid_keypoints_length [OF assms] obtain k1 k2 ks where kps: "kps = k1 # k2 # ks"
    by (cases kps; cases "tl kps") auto
  from assms have z: "fst k1 = 0" and "fst k1 < fst k2"
    by (simp_all add: valid_keypoints_def kps)
  with gradient_search_first [of k1 k2 ks] show ?thesis by (simp add: kps)
qed

lemma valid_keypoints_last:
  assumes "valid_keypoints kps"
  shows "gradient_search kps 1 = Some (snd (last kps))"
  using assms gradient_search_last [of kps 1] valid_keypoints_length [OF assms]
  by (simp add: valid_keypoints_def)

lemma keypoints_valid: "valid_keypoints keypoints"
  by (simp add: valid_keypoints_def keypoints_def)

text \<open>
C8.  For every valid set of keypoints the table that \<^verbatim>\<open>_build_gradient\<close> builds
  has 256 entries, and the lookup of \<^verbatim>\<open>render\<close> returns the colour of the first
  keypoint at the ratio 0 and the colour of the last keypoint at the ratio 1.  The
  colour map of the depth scanner, whose keypoints are the equally spaced rows of
  \<^verbatim>\<open>self.colors\<close>, returns the first row at distance 0 and the last row at
  \<^verbatim>\<open>max_dist\<close>, that is at the normalized inputs 0 and 1.
\<close>

theorem color_map_endpoints:
  "(valid_keypoints kps \<longrightarrow>
      (\<exists>colors. build_gradient_from kps = Inr colors \<and> length colors = 256 \<and>
         color_at colors 0 = Inr (snd (hd kps)) \<and>
         color_at colors 1 = Inr (snd (last kps))))
   \<and> (ds_colors self \<noteq> [] \<and> ds_max_dist self \<noteq> 0 \<longrightarrow>
         dist_to_color self 0 = Inr (hd (ds_colors self)) \<and>
         dist_to_color self (ds_max_dist self) = Inr (last (ds_colors self)))"
proof (intro conjI impI)
  assume v: "valid_keypoints kps"
  define f where "f = (\<lambda>i. let t = real i / 255.0
                         in case gradient_search kps t of
                              Some c \<Rightarrow> c
                            | None \<Rightarrow> snd (last kps))"
  from v have ne: "kps \<noteq> []" by (simp add: valid_keypoints_def)
  have b: "build_gradient_from kps = Inr (map f [0 ..< 256])"
    using ne by (simp add: build_gradient_from_def f_def)
  have f0: "f 0 = snd (hd kps)" by (simp add: f_def valid_keypoints_first [OF v])
  have f1: "f 255 = snd (last kps)" by (simp add: f_def valid_keypoints_last [OF v])
  have i0: "py_int (min 1.0 (max 0.0 0) * 255) = 0" by (simp add: py_int_def)
  have i1: "py_int (min 1.0 (max 0.0 1) * 255) = 255" by (simp add: py_int_def)
  have c0: "color_at (map f [0 ..< 256]) 0 = Inr (snd (hd kps))"
    unfolding color_at_def Let_def i0 using f0 by (simp del: upt_Suc)
  have c1: "color_at (map f [0 ..< 256]) 1 = Inr (snd (last kps))"
    unfolding color_at_def Let_def i1 using f1 by (simp del: upt_Suc)
  have l: "length (map f [0 ..< 256]) = 256" by simp
  from b l c0 c1
  show "\<exists>colors. build_gradient_from kps = Inr colors \<and> length colors = 256 \<and>
         color_at colors 0 = Inr (snd (hd kps)) \<and>
         color_at colors 1 = Inr (snd (last kps))" by blast
next
  assume a: "ds_colors self \<noteq> [] \<and> ds_max_dist self \<noteq> 0"
  then obtain c cs where cs: "ds_colors self = c # cs" by (cases "ds_colors self") auto
  obtain r g b where c: "c = (r, g, b)" by (cases c)
  show "dist_to_color self 0 = Inr (hd (ds_colors self))"
    using a by (simp add: dist_to_color_def Let_def py_int_def cs c rgb_add_def rgb_scale_def)
next
  assume a: "ds_colors self \<noteq> [] \<and> ds_max_dist self \<noteq> 0"
  define n where "n = length (ds_colors self)"
  from a have n: "0 < n" by (simp add: n_def)
  have t: "max 0 (min 1 (ds_max_dist self / ds_max_dist self)) = 1" using a by simp
  have idx: "py_int (1 * (real n - 1)) = int n - 1"
    using n by (simp add: py_int_def of_nat_diff) 
  have hi: "min (int n - 1 + 1) (int n - 1) = int n - 1" by simp
  have nn: "nat (int n - 1) = n - 1" by simp
  obtain r g b where l: "last (ds_colors self) = (r, g, b)" by (cases "last (ds_colors self)")
  have nth: "ds_colors self ! (n - 1) = (r, g, b)"
    using a l by (simp add: n_def last_conv_nth)
  have fr: "1 * (real n - 1) - real_of_int (int n - 1) = 0" using n by simp
  show "dist_to_color self (ds_max_dist self) = Inr (last (ds_colors self))"
    using a unfolding dist_to_color_def Let_def t n_def [symmetric] idx hi nn nth fr
    by (simp add: l rgb_add_def rgb_scale_def)
qed

theorem color_map_endpoints_witness:
  "valid_keypoints keypoints \<and>
   (\<exists>colors. build_gradient = Inr colors \<and> color_at colors 0 = Inr (255, 30, 30) \<and>
      color_at colors 1 = Inr (30, 60, 180)) \<and>
   (\<exists>ds. DepthScanner_init 400 300 200 = Inr ds \<and> dist_to_color ds 0 = Inr (0, 0, 1) \<and>
      dist_to_color ds 200 = Inr (1, 0, 0))"
proof -
  define ds where "ds = \<lparr>ds_width = 400, ds_height = 300, ds_max_dist = 200,
                ds_depth_buffer = (\<lambda>y x. 200), ds_display = (\<lambda>y x. (0, 0, 0)),
                ds_scan_x = 0, ds_scan_speed = 3, ds_colors = depth_colors,
                ds_last_dist = 0, ds_scan_count = 0\<rparr>"
  have i: "DepthScanner_init 400 300 200 = Inr ds" by (simp add: DepthScanner_init_def ds_def)
  have ok: "ds_colors ds \<noteq> [] \<and> ds_max_dist ds \<noteq> 0" by (simp add: ds_def depth_colors_def)
  note t = color_map_endpoints [of keypoints ds]
  from t keypoints_valid obtain colors
    where b: "build_gradient = Inr colors" and c0: "color_at colors 0 = Inr (snd (hd keypoints))"
      and c1: "color_at colors 1 = Inr (snd (last keypoints))"
    unfolding build_gradient_def by blast
  from c0 have c0': "color_at colors 0 = Inr (255, 30, 30)" by (simp add: keypoints_def)
  from c1 have c1': "color_at colors 1 = Inr (30, 60, 180)" by (simp add: keypoints_def)
  from t ok have "dist_to_color ds 0 = Inr (hd (ds_colors ds))"
    and "dist_to_color ds (ds_max_dist ds) = Inr (last (ds_colors ds))" by blast+
  then have d0: "dist_to_color ds 0 = Inr (0, 0, 1)" and d1: "dist_to_color ds 200 = Inr (1, 0, 0)"
    by (simp_all add: ds_def depth_colors_def)
  from b c0' c1' have g: "\<exists>colors. build_gradient = Inr colors \<and>
      color_at colors 0 = Inr (255, 30, 30) \<and> color_at colors 1 = Inr (30, 60, 180)" by blast
  from i d0 d1 have d: "\<exists>ds. DepthScanner_init 400 300 200 = Inr ds \<and>
      dist_to_color ds 0 = Inr (0, 0, 1) \<and> dist_to_color ds 200 = Inr (1, 0, 0)" by blast
  show ?thesis by (intro conjI) (rule keypoints_valid g d)+
qed

subsection \<open>The demo ray cast\<close>

lemma first_hit_Some: "first_hit inside ds = Some d \<Longrightarrow> d \<in> set ds \<and> inside d"
  by (induction ds) (auto split: if_splits)

lemma range2_bounds: "d \<in> set (range2 start stop) \<Longrightarrow> start \<le> d \<and> d < stop"
proof -
  assume "d \<in> set (range2 start stop)"
  then obtain k where lt: "start < stop" and k: "k < nat ((stop - start + 1) div 2)"
    and d: "d = start + 2 * int k"
    by (auto simp add: range2_def split: if_splits)
  from k have "int k < (stop - start + 1) div 2" by linarith
  then have "2 * int k + 2 \<le> 2 * ((stop - start + 1) div 2)" by linarith
  also have "\<dots> \<le> stop - start + 1" by simp
  finally show ?thesis using d by simp
qed


lemma raycast_walls_value:
  "raycast_walls dx dy ds walls min_dist = min_dist \<or>
   (\<exists>d \<in> set ds. raycast_walls dx dy ds walls min_dist = real_of_int d)"
proof (induction walls arbitrary: min_dist)
  case Nil
  then show ?case by simp
next
  case (Cons w ws)
  show ?case
  proof (cases "first_hit (\<lambda>d. wall_contains w (dx * real_of_int d) (dy * real_of_int d)) ds")
    case None
    then show ?thesis using Cons.IH [of min_dist] by simp
  next
    case (Some d)
    then have d: "d \<in> set ds" by (auto dest: first_hit_Some)
    from Cons.IH [of "min min_dist (real_of_int d)"] d Some
    show ?thesis by (auto simp add: min_def split: if_splits)
  qed
qed





lemma demo_raycast_search_hit_ge:
  assumes "demo_raycast_search self a < rv_max_dist self"
  shows "5 \<le> demo_raycast_search self a"
proof -
  from raycast_walls_value [of "sin (radians a)" "cos (radians a)"
         "range2 5 (py_int (rv_max_dist self))" "rv_demo_walls self" "rv_max_dist self"] assms
  obtain d where "d \<in> set (range2 5 (py_int (rv_max_dist self)))"
    and "demo_raycast_search self a = real_of_int d"
    by (auto simp add: demo_raycast_search_def Let_def)
  with range2_bounds [of d 5 "py_int (rv_max_dist self)"] show ?thesis by simp
qed



text \<open>
C9.  The search of \<^verbatim>\<open>_demo_raycast\<close> reads nothing from the random source: the
  distance it returns depends on the source only through the one draw of the noise
  term, so two casts at the same heading in the same environment whose noise terms are
  equal return the same distance, and with the noise term at zero the distance is the
  one the search found.
\<close>

theorem demo_raycast_deterministic:
  "(fst (draw g1) = fst (draw g2) \<longrightarrow>
      fst (demo_raycast self angle_deg g1) = fst (demo_raycast self angle_deg g2))
   \<and> (fst (draw g) = 0 \<longrightarrow>
      fst (demo_raycast self angle_deg g) = demo_raycast_search self angle_deg)"
proof (intro conjI impI)
  assume "fst (draw g1) = fst (draw g2)"
  then show "fst (demo_raycast self angle_deg g1) = fst (demo_raycast self angle_deg g2)"
    by (simp add: demo_raycast_def Let_def case_prod_beta)
next
  assume z: "fst (draw g) = 0"
  show "fst (demo_raycast self angle_deg g) = demo_raycast_search self angle_deg"
  proof (cases "demo_raycast_search self angle_deg < rv_max_dist self")
    case True
    from demo_raycast_search_hit_ge [OF True] True z show ?thesis
      by (simp add: demo_raycast_def Let_def case_prod_beta)
  next
    case False
    then show ?thesis by (simp add: demo_raycast_def Let_def)
  qed
qed


theorem demo_raycast_deterministic_witness:
  "fst (draw (\<lambda>n. 0)) = 0 \<and>
   fst (demo_raycast
          \<lparr>rv_max_points = 8000, rv_max_dist = 50, rv_demo = True,
            rv_points = \<lparr>maxlen = 8000, items = []\<rparr>, rv_demo_angle = 0,
            rv_demo_walls = [Rect (- 10) 20 20 5], rv_last_heading = 0, rv_point_count = 0\<rparr>
          0 (\<lambda>n. 0)) = 21"
proof -
  define rv where "rv = \<lparr>rv_max_points = 8000, rv_max_dist = 50, rv_demo = True,
            rv_points = \<lparr>maxlen = 8000, items = []\<rparr>, rv_demo_angle = 0,
            rv_demo_walls = [Rect (- 10) 20 20 5], rv_last_heading = 0, rv_point_count = 0\<rparr>"
  have z: "fst (draw (\<lambda>n. 0)) = 0" by (simp add: draw_def)
  have r: "range2 5 50 = [5, 7, 9, 11, 13, 15, 17, 19, 21, 23, 25, 27, 29, 31, 33, 35, 37, 39,
                          41, 43, 45, 47, 49]"
    by code_simp
  have s: "demo_raycast_search rv 0 = 21"
    by (simp add: demo_raycast_search_def rv_def radians_def py_int_def r)
  from demo_raycast_deterministic [of _ _ rv 0 "\<lambda>n. 0"] z s
  have "fst (demo_raycast rv 0 (\<lambda>n. 0)) = 21" by simp
  with z show ?thesis unfolding rv_def by simp
qed


subsection \<open>The stored coordinates\<close>

lemma deque_append_set: "set (items (deque_append d x)) \<subseteq> insert x (set (items d))"
proof (cases "items d")
  case Nil
  then show ?thesis by (simp add: deque_append_def Let_def)
next
  case (Cons y ys)
  then show ?thesis by (auto simp add: deque_append_def Let_def)
qed

lemma deque_append_all:
  "\<forall>p \<in> set (items d). P p \<Longrightarrow> P x \<Longrightarrow> \<forall>p \<in> set (items (deque_append d x)). P p"
  using deque_append_set [of d x] by auto

lemma beam_points_all:
  assumes "20 \<le> pc_width self" and "60 \<le> pc_height self"
  shows "\<forall>(px, py, d, sz, t) \<in> set (items pts).
           10 \<le> px \<and> px \<le> pc_width self - 10 \<and> 10 \<le> py \<and> py \<le> pc_height self - 50 \<Longrightarrow>
         \<forall>(px, py, d, sz, t) \<in> set (items (fst (beam_points n self b_x b_y b_s dst now pts g))).
           10 \<le> px \<and> px \<le> pc_width self - 10 \<and> 10 \<le> py \<and> py \<le> pc_height self - 50"
proof (induction n arbitrary: pts g)
  case 0
  then show ?case by simp
next
  case (Suc n)
  define px where "px = max 10 (min (pc_width self - 10) (b_x + fst (draw g)))"
  define py where "py = max 10 (min (pc_height self - 50) (b_y + fst (draw (snd (draw g)))))"
  define g2 where "g2 = snd (draw (snd (draw g)))"
  define pd where "pd = max 1 (min (pc_max_dist self) (dst + fst (draw (snd (draw g2)))))"
  define p where "p = (px, py, pd, b_s * fst (draw g2), now)"
  have inb: "10 \<le> px \<and> px \<le> pc_width self - 10 \<and> 10 \<le> py \<and> py \<le> pc_height self - 50"
    using assms by (simp add: px_def py_def)
  have step: "beam_points (Suc n) self b_x b_y b_s dst now pts g
              = beam_points n self b_x b_y b_s dst now (deque_append pts p) (snd (draw (snd (draw g2))))"
    by (simp add: Let_def case_prod_beta p_def px_def py_def pd_def g2_def)
  have "\<forall>(px, py, d, sz, t) \<in> set (items (deque_append pts p)).
           10 \<le> px \<and> px \<le> pc_width self - 10 \<and> 10 \<le> py \<and> py \<le> pc_height self - 50"
    using Suc.prems inb by (intro deque_append_all) (simp_all add: p_def)
  from Suc.IH [OF this] show ?case by (simp only: step)
qed

lemma pc_add_reading_shape:
  assumes "pc_add_reading self dst ho now g = Inr (self', g')"
  shows "self' = self \<or>
         (\<exists>n b_x b_y b_s.
            pc_points self' = fst (beam_points n self b_x b_y b_s dst now (pc_points self) g) \<and>
            pc_width self' = pc_width self \<and> pc_height self' = pc_height self)"
proof (cases "dst \<le> 0")
  case True
  with assms show ?thesis by (simp add: pc_add_reading_def)
next
  case False
  with assms have nz: "pc_max_dist self \<noteq> 0"
    by (auto simp add: pc_add_reading_def Let_def split: if_splits)
  from assms False nz
  have "\<exists>n b_x b_y b_s.
            pc_points self' = fst (beam_points n self b_x b_y b_s dst now (pc_points self) g) \<and>
            pc_width self' = pc_width self \<and> pc_height self' = pc_height self"
    unfolding pc_add_reading_def Let_def case_prod_beta
    by (intro exI) auto
  then show ?thesis by blast
qed

lemma pc_add_reading_bounds:
  assumes "20 \<le> pc_width self" and "60 \<le> pc_height self"
    and "\<forall>(px, py, d, sz, t) \<in> set (items (pc_points self)).
           10 \<le> px \<and> px \<le> pc_width self - 10 \<and> 10 \<le> py \<and> py \<le> pc_height self - 50"
    and "pc_add_reading self dst ho now g = Inr (self', g')"
  shows "(\<forall>(px, py, d, sz, t) \<in> set (items (pc_points self')).
           10 \<le> px \<and> px \<le> pc_width self - 10 \<and> 10 \<le> py \<and> py \<le> pc_height self - 50)
         \<and> pc_width self' = pc_width self \<and> pc_height self' = pc_height self"
  using pc_add_reading_shape [OF assms(4)]
proof
  assume "self' = self"
  with assms(3) show ?thesis by simp
next
  assume "\<exists>n b_x b_y b_s.
            pc_points self' = fst (beam_points n self b_x b_y b_s dst now (pc_points self) g) \<and>
            pc_width self' = pc_width self \<and> pc_height self' = pc_height self"
  then obtain n b_x b_y b_s
    where p: "pc_points self' = fst (beam_points n self b_x b_y b_s dst now (pc_points self) g)"
      and w: "pc_width self' = pc_width self" and h: "pc_height self' = pc_height self" by blast
  from beam_points_all [OF assms(1,2,3), of n b_x b_y b_s dst now g] w h
  show ?thesis by (simp only: p)
qed

lemma pc_feed_bounds:
  "20 \<le> pc_width self \<Longrightarrow> 60 \<le> pc_height self \<Longrightarrow>
   \<forall>(px, py, d, sz, t) \<in> set (items (pc_points self)).
       10 \<le> px \<and> px \<le> pc_width self - 10 \<and> 10 \<le> py \<and> py \<le> pc_height self - 50 \<Longrightarrow>
   pc_feed self rs g = Inr (self', g') \<Longrightarrow>
   (\<forall>(px, py, d, sz, t) \<in> set (items (pc_points self')).
       10 \<le> px \<and> px \<le> pc_width self - 10 \<and> 10 \<le> py \<and> py \<le> pc_height self - 50)
   \<and> pc_width self' = pc_width self \<and> pc_height self' = pc_height self"
proof (induction self rs g rule: pc_feed.induct)
  case (1 self g)
  then show ?case by simp
next
  case (2 self dst ho now rs g)
  from "2.prems"(4) obtain s1 g1 where step: "pc_add_reading self dst ho now g = Inr (s1, g1)"
    and rest: "pc_feed s1 rs g1 = Inr (self', g')"
    by (auto split: sum.splits)
  from pc_add_reading_bounds [OF "2.prems"(1,2,3) step]
  have b: "\<forall>(px, py, d, sz, t) \<in> set (items (pc_points s1)).
             10 \<le> px \<and> px \<le> pc_width s1 - 10 \<and> 10 \<le> py \<and> py \<le> pc_height s1 - 50"
    and w: "pc_width s1 = pc_width self" and h: "pc_height s1 = pc_height self" by simp_all
  from "2.prems"(1,2) have w1: "20 \<le> pc_width s1" and h1: "60 \<le> pc_height s1"
    by (simp_all add: w h)
  from "2.IH" [OF step refl w1 h1 b rest] show ?case by (simp add: w h)
qed

lemma add_point_scatter_all:
  "\<forall>(x, y, d, t) \<in> set (items pts). (x, y, d, t) \<in> S \<or> 0 < d \<and> \<bar>x\<bar> \<le> d \<and> \<bar>y\<bar> \<le> d \<Longrightarrow>
   \<forall>(x, y, d, t) \<in> set (items (fst (add_point_scatter n theta dist_cm now pts g))).
      (x, y, d, t) \<in> S \<or> 0 < d \<and> \<bar>x\<bar> \<le> d \<and> \<bar>y\<bar> \<le> d"
proof (induction n arbitrary: pts g)
  case 0
  then show ?case by simp
next
  case (Suc n)
  define a where "a = theta + fst (draw g)"
  define d where "d = dist_cm + fst (draw (snd (draw g)))"
  define g2 where "g2 = snd (draw (snd (draw g)))"
  define pts' where "pts' = (if d > 0 then deque_append pts (d * sin a, d * cos a, d, now) else pts)"
  have step: "add_point_scatter (Suc n) theta dist_cm now pts g
              = add_point_scatter n theta dist_cm now pts' g2"
    by (simp add: Let_def case_prod_beta pts'_def a_def d_def g2_def)
  have "\<forall>(x, y, d, t) \<in> set (items pts'). (x, y, d, t) \<in> S \<or> 0 < d \<and> \<bar>x\<bar> \<le> d \<and> \<bar>y\<bar> \<le> d"
  proof (cases "d > 0")
    case True
    have "\<bar>d * sin a\<bar> \<le> d" and "\<bar>d * cos a\<bar> \<le> d"
      using True by (simp_all add: abs_mult mult_left_le)
    with True Suc.prems
    have "\<forall>p \<in> set (items (deque_append pts (d * sin a, d * cos a, d, now))).
            (case p of (x, y, d, t) \<Rightarrow> (x, y, d, t) \<in> S \<or> 0 < d \<and> \<bar>x\<bar> \<le> d \<and> \<bar>y\<bar> \<le> d)"
      by (intro deque_append_all) simp_all
    with True show ?thesis by (simp add: pts'_def)
  next
    case False
    with Suc.prems show ?thesis by (simp add: pts'_def)
  qed
  from Suc.IH [OF this, of g2] show ?case by (simp only: step)
qed

lemma sr_feed_range:
  "\<forall>p \<in> set (items (sr_points self)). 2 < distance p \<and> distance p < MAX_RANGE \<Longrightarrow>
   \<forall>p \<in> set (items (sr_points (sr_feed self rs))). 2 < distance p \<and> distance p < MAX_RANGE"
proof (induction self rs rule: sr_feed.induct)
  case (1 self)
  then show ?case by simp
next
  case (2 self d s now rs)
  have "\<forall>p \<in> set (items (sr_points (read_data self d s now))).
          2 < distance p \<and> distance p < MAX_RANGE"
  proof (cases "2 < d \<and> d < MAX_RANGE")
    case True
    then have "sr_points (read_data self d s now)
               = deque_append (sr_points self) \<lparr>distance = d, timestamp = now\<rparr>"
      by (simp add: read_data_def Let_def)
    with True "2.prems" deque_append_set [of "sr_points self" "\<lparr>distance = d, timestamp = now\<rparr>"]
    show ?thesis by auto
  next
    case False
    with "2.prems" show ?thesis by (auto simp add: read_data_def Let_def)
  qed
  from "2.IH" [OF this] show ?case by simp
qed

lemma draw_point_on_screen:
  assumes "2 < distance p" and "distance p < MAX_RANGE"
  shows "case draw_point a p now of (color, (px, py), sz) \<Rightarrow>
           px = CENTER_X \<and> 0 \<le> px \<and> px \<le> WIDTH \<and> 0 \<le> py \<and> py \<le> HEIGHT"
proof -
  from assms have "5 < distance p * PIXELS_PER_CM" and "distance p * PIXELS_PER_CM < 500"
    by (simp_all add: PIXELS_PER_CM_def MAX_RANGE_def)
  then have "5 \<le> py_int (distance p * PIXELS_PER_CM)" and "py_int (distance p * PIXELS_PER_CM) < 500"
    by (simp_all add: py_int_def le_floor_iff floor_less_iff)
  then show ?thesis
    by (simp add: draw_point_def Let_def CENTER_X_def CENTER_Y_def WIDTH_def HEIGHT_def)
qed


lemma PointCloudScanner_init_fields:
  assumes "PointCloudScanner_init max_points max_dist fov = Inr pc0"
  shows "pc_width pc0 = 1200" and "pc_height pc0 = 700" and "items (pc_points pc0) = []"
    and "pc_max_dist pc0 = max_dist"
proof -
  from assms have "\<not> max_points < 0"
    by (auto simp add: PointCloudScanner_init_def deque_new_def)
  with assms have "pc0 = \<lparr>pc_max_points = max_points, pc_max_dist = max_dist, pc_fov = fov,
                      pc_points = \<lparr>maxlen = nat max_points, items = []\<rparr>, pc_camera_angle = 0,
                      pc_camera_speed = 0.8,
                      pc_width = 1200, pc_height = 700, pc_last_dist = 0,
                      pc_scan_count = 0\<rparr>"
    by (simp add: PointCloudScanner_init_def deque_new_def)
  then show "pc_width pc0 = 1200" and "pc_height pc0 = 700" and "items (pc_points pc0) = []"
    and "pc_max_dist pc0 = max_dist"
    by simp_all
qed

lemma SonarRadar_init_fields:
  assumes "SonarRadar_init = Inr sr0"
  shows "items (sr_points sr0) = []"
proof -
  from assms have "sr0 = \<lparr>sr_points = \<lparr>maxlen = nat MAX_POINTS, items = []\<rparr>,
                     sr_current_distance = 0, sr_state = ''STOP'', sr_last_reading_time = 0\<rparr>"
    by (simp add: SonarRadar_init_def deque_new_def MAX_POINTS_def)
  then show ?thesis by simp
qed

lemma add_point_stored:
  "\<forall>(x, y, d, t) \<in> set (items (rv_points (fst (add_point rv heading_deg dist_cm now h)))).
     (x, y, d, t) \<in> set (items (rv_points rv)) \<or> 0 < d \<and> \<bar>x\<bar> \<le> d \<and> \<bar>y\<bar> \<le> d"
proof (cases "dist_cm \<le> 0 \<or> dist_cm > rv_max_dist rv")
  case True
  then have "add_point rv heading_deg dist_cm now h = (rv, h)" by (simp add: add_point_def)
  then show ?thesis by (simp add: case_prod_beta)
next
  case False
  then have p: "rv_points (fst (add_point rv heading_deg dist_cm now h))
             = fst (add_point_scatter 3 (radians heading_deg) dist_cm now (rv_points rv) h)"
    by (simp add: add_point_def Let_def case_prod_beta)
  have "\<forall>(x, y, d, t) \<in> set (items (rv_points rv)).
          (x, y, d, t) \<in> set (items (rv_points rv)) \<or> 0 < d \<and> \<bar>x\<bar> \<le> d \<and> \<bar>y\<bar> \<le> d"
    by (simp add: case_prod_beta)
  from add_point_scatter_all [OF this, of 3 "radians heading_deg" dist_cm now h]
  show ?thesis by (simp only: p)
qed

lemma pc_feed_viewport:
  assumes "PointCloudScanner_init max_points max_dist fov = Inr pc0"
    and "pc_feed pc0 rs g = Inr (pc, g')"
  shows "\<forall>(px, py, d, sz, t) \<in> set (items (pc_points pc)).
            10 \<le> px \<and> px \<le> pc_width pc - 10 \<and> 10 \<le> py \<and> py \<le> pc_height pc - 50 \<and>
            fst (pc_xlim pc) \<le> px \<and> px \<le> snd (pc_xlim pc) \<and>
            fst (pc_ylim pc) \<le> py \<and> py \<le> snd (pc_ylim pc)"
proof -
  note f = PointCloudScanner_init_fields [OF assms(1)]
  have w0: "20 \<le> pc_width pc0" and h0: "60 \<le> pc_height pc0" by (simp_all add: f)
  have b0: "\<forall>(px, py, d, sz, t) \<in> set (items (pc_points pc0)).
             10 \<le> px \<and> px \<le> pc_width pc0 - 10 \<and> 10 \<le> py \<and> py \<le> pc_height pc0 - 50"
    by (simp add: f)
  from pc_feed_bounds [OF w0 h0 b0 assms(2)]
  have b: "\<forall>(px, py, d, sz, t) \<in> set (items (pc_points pc)).
             10 \<le> px \<and> px \<le> pc_width pc0 - 10 \<and> 10 \<le> py \<and> py \<le> pc_height pc0 - 50"
    and w': "pc_width pc = pc_width pc0" and h': "pc_height pc = pc_height pc0" by blast+
  show ?thesis
  proof
    fix p assume "p \<in> set (items (pc_points pc))"
    with b have "case p of (px, py, d, sz, t) \<Rightarrow>
        10 \<le> px \<and> px \<le> pc_width pc0 - 10 \<and> 10 \<le> py \<and> py \<le> pc_height pc0 - 50" by blast
    then show "case p of (px, py, d, sz, t) \<Rightarrow>
            10 \<le> px \<and> px \<le> pc_width pc - 10 \<and> 10 \<le> py \<and> py \<le> pc_height pc - 50 \<and>
            fst (pc_xlim pc) \<le> px \<and> px \<le> snd (pc_xlim pc) \<and>
            fst (pc_ylim pc) \<le> py \<and> py \<le> snd (pc_ylim pc)"
      by (cases p) (simp add: pc_xlim_def pc_ylim_def w' h' f)
  qed
qed

lemma sr_feed_on_screen:
  assumes "SonarRadar_init = Inr sr0"
  shows "\<forall>p \<in> set (items (sr_points (sr_feed sr0 qs))).
            2 < distance p \<and> distance p < MAX_RANGE \<and>
            (\<forall>a now. case draw_point a p now of (color, (px, py), sz) \<Rightarrow>
               px = CENTER_X \<and> 0 \<le> px \<and> px \<le> WIDTH \<and> 0 \<le> py \<and> py \<le> HEIGHT)"
proof
  fix p assume p: "p \<in> set (items (sr_points (sr_feed sr0 qs)))"
  have "\<forall>p \<in> set (items (sr_points sr0)). 2 < distance p \<and> distance p < MAX_RANGE"
    by (simp add: SonarRadar_init_fields [OF assms])
  from sr_feed_range [OF this, of qs] p
  have r: "2 < distance p" "distance p < MAX_RANGE" by blast+
  have "case draw_point a p now of (color, (px, py), sz) \<Rightarrow>
               px = CENTER_X \<and> 0 \<le> px \<and> px \<le> WIDTH \<and> 0 \<le> py \<and> py \<le> HEIGHT" for a now
    by (rule draw_point_on_screen [OF r])
  with r show "2 < distance p \<and> distance p < MAX_RANGE \<and>
            (\<forall>a now. case draw_point a p now of (color, (px, py), sz) \<Rightarrow>
               px = CENTER_X \<and> 0 \<le> px \<and> px \<le> WIDTH \<and> 0 \<le> py \<and> py \<le> HEIGHT)"
    by (intro conjI allI)
qed

lemma add_point_scatter_Suc:
  "add_point_scatter (Suc n) theta dist_cm now pts g =
     add_point_scatter n theta dist_cm now
       (if dist_cm + g 1 > 0
        then deque_append pts ((dist_cm + g 1) * sin (theta + g 0),
                               (dist_cm + g 1) * cos (theta + g 0), dist_cm + g 1, now)
        else pts)
       (\<lambda>k. g (Suc (Suc k)))"
  by (simp add: draw_def Let_def)

lemma map_filter_upt_Suc:
  "map F (filter P [0 ..< Suc n]) =
     (if P 0 then [F 0] else []) @ map (\<lambda>i. F (Suc i)) (filter (\<lambda>i. P (Suc i)) [0 ..< n])"
proof -
  have "[0 ..< Suc n] = 0 # map Suc [0 ..< n]"
    by (simp only: upt_conv_Cons [OF zero_less_Suc] map_Suc_upt)
  then show ?thesis by (simp add: filter_map comp_def)
qed

lemma add_point_scatter_exact:
  "add_point_scatter n theta dist_cm now pts g =
     (foldl deque_append pts
        (map (\<lambda>i. ((dist_cm + g (2 * i + 1)) * sin (theta + g (2 * i)),
                   (dist_cm + g (2 * i + 1)) * cos (theta + g (2 * i)),
                   dist_cm + g (2 * i + 1), now))
           (filter (\<lambda>i. 0 < dist_cm + g (2 * i + 1)) [0 ..< n])),
      \<lambda>k. g (k + 2 * n))"
proof (induction n arbitrary: pts g)
  case 0
  then show ?case by simp
next
  case (Suc n)
  show ?case
    unfolding add_point_scatter_Suc Suc.IH map_filter_upt_Suc
    by (simp del: upt_Suc)
qed

lemma lidar_beam_Suc:
  "lidar_beam (Suc n) theta dist_cm now pts g =
     lidar_beam n theta dist_cm now
       (if dist_cm + g 1 > 0
        then deque_append pts ((dist_cm + g 1) * sin (theta + g 0),
                               (dist_cm + g 1) * cos (theta + g 0), dist_cm + g 1, now)
        else pts)
       (\<lambda>k. g (Suc (Suc k)))"
  by (simp add: draw_def Let_def)

lemma lidar_beam_exact:
  "lidar_beam n theta dist_cm now pts g =
     (foldl deque_append pts
        (map (\<lambda>i. ((dist_cm + g (2 * i + 1)) * sin (theta + g (2 * i)),
                   (dist_cm + g (2 * i + 1)) * cos (theta + g (2 * i)),
                   dist_cm + g (2 * i + 1), now))
           (filter (\<lambda>i. 0 < dist_cm + g (2 * i + 1)) [0 ..< n])),
      \<lambda>k. g (k + 2 * n))"
proof (induction n arbitrary: pts g)
  case 0
  then show ?case by simp
next
  case (Suc n)
  show ?case
    unfolding lidar_beam_Suc Suc.IH map_filter_upt_Suc
    by (simp del: upt_Suc)
qed

lemma add_point_gate:
  "dist_cm \<le> 0 \<or> rv_max_dist rv < dist_cm \<Longrightarrow> add_point rv heading_deg dist_cm now g = (rv, g)"
  by (simp add: add_point_def)

lemma add_point_exact:
  assumes "0 < dist_cm \<and> dist_cm \<le> rv_max_dist rv"
  shows "add_point rv heading_deg dist_cm now g =
     (rv\<lparr>rv_points := foldl deque_append (rv_points rv)
           (map (\<lambda>i. ((dist_cm + g (2 * i + 1)) * sin (radians heading_deg + g (2 * i)),
                      (dist_cm + g (2 * i + 1)) * cos (radians heading_deg + g (2 * i)),
                      dist_cm + g (2 * i + 1), now))
              (filter (\<lambda>i. 0 < dist_cm + g (2 * i + 1)) [0 ..< 3])),
         rv_last_heading := heading_deg,
         rv_point_count := rv_point_count rv + 1\<rparr>,
      \<lambda>k. g (k + 6))"
proof -
  from assms have a: "\<not> (dist_cm \<le> 0 \<or> dist_cm > rv_max_dist rv)" by simp
  show ?thesis
    unfolding add_point_def Let_def add_point_scatter_exact using a
    by (simp del: upt_Suc)
qed

lemma lidar_add_reading_gate:
  "dist_cm \<le> 0 \<or> lv_max_dist lv < dist_cm \<Longrightarrow>
   lidar_add_reading lv heading_deg dist_cm now g = (lv, g)"
  by (simp add: lidar_add_reading_def)

lemma lidar_add_reading_exact:
  assumes "0 < dist_cm \<and> dist_cm \<le> lv_max_dist lv"
  shows "lidar_add_reading lv heading_deg dist_cm now g =
     (lv\<lparr>lv_points := foldl deque_append (lv_points lv)
           (map (\<lambda>i. ((dist_cm + g (2 * i + 1)) * sin (radians heading_deg + g (2 * i)),
                      (dist_cm + g (2 * i + 1)) * cos (radians heading_deg + g (2 * i)),
                      dist_cm + g (2 * i + 1), now))
              (filter (\<lambda>i. 0 < dist_cm + g (2 * i + 1)) [0 ..< 8])),
         lv_last_dist := dist_cm,
         lv_last_heading := heading_deg,
         lv_scan_count := lv_scan_count lv + 1\<rparr>,
      \<lambda>k. g (k + 16))"
proof -
  from assms have a: "\<not> (dist_cm \<le> 0 \<or> dist_cm > lv_max_dist lv)" by simp
  show ?thesis
    unfolding lidar_add_reading_def Let_def lidar_beam_exact using a
    by (simp del: upt_Suc)
qed

lemma foldl_deque_append_set:
  "set (items (foldl deque_append d xs)) \<subseteq> set (items d) \<union> set xs"
proof (induction xs arbitrary: d)
  case Nil
  then show ?case by simp
next
  case (Cons x xs)
  from Cons.IH [of "deque_append d x"] deque_append_set [of d x]
  show ?case by auto
qed

lemma lidar_add_reading_stored:
  "\<forall>(x, y, d, t) \<in> set (items (lv_points (fst (lidar_add_reading lv heading_deg dist_cm now g)))).
     (x, y, d, t) \<in> set (items (lv_points lv)) \<or> 0 < d \<and> \<bar>x\<bar> \<le> d \<and> \<bar>y\<bar> \<le> d"
proof (cases "0 < dist_cm \<and> dist_cm \<le> lv_max_dist lv")
  case False
  then have "lidar_add_reading lv heading_deg dist_cm now g = (lv, g)"
    by (intro lidar_add_reading_gate) auto
  then show ?thesis by (simp add: case_prod_beta)
next
  case True
  define new where "new = map (\<lambda>i. ((dist_cm + g (2 * i + 1)) * sin (radians heading_deg + g (2 * i)),
                      (dist_cm + g (2 * i + 1)) * cos (radians heading_deg + g (2 * i)),
                      dist_cm + g (2 * i + 1), now))
              (filter (\<lambda>i. 0 < dist_cm + g (2 * i + 1)) [0 ..< 8])"
  have p: "lv_points (fst (lidar_add_reading lv heading_deg dist_cm now g))
           = foldl deque_append (lv_points lv) new"
    unfolding lidar_add_reading_exact [OF True] new_def by simp
  have n: "\<forall>(x, y, d, t) \<in> set new. 0 < d \<and> \<bar>x\<bar> \<le> d \<and> \<bar>y\<bar> \<le> d"
    unfolding new_def by (auto simp add: abs_mult mult_left_le)
  show ?thesis
    unfolding p using foldl_deque_append_set [of "lv_points lv" new] n by auto
qed

text \<open>
C5, as the code has it.  Only the pseudo-3D scanner clamps: every point that
  \<^verbatim>\<open>PointCloudScanner.add_reading\<close> stores has \<open>10 \<le> px \<le> width - 10\<close> and
  \<open>10 \<le> py \<le> height - 50\<close>, inside the viewport.  The forward-relative radar stores
  only distances between 2 and \<^verbatim>\<open>MAX_RANGE\<close>, which it draws inside its window.
  The polar modes, \<^verbatim>\<open>RadarVisualizer.add_point\<close> and
  \<^verbatim>\<open>LidarVisualizer.add_reading\<close>, do not clamp.  A reading with \<open>dist \<le> 0\<close> or
  \<open>dist > max_dist\<close> changes nothing and draws no noise.  An accepted reading,
  \<open>0 < dist \<le> max_dist\<close>, draws an angle noise and a distance noise for each of its
  3 (radar) or 8 (lidar) scatter points and appends, for every draw with
  \<open>d = dist + noise > 0\<close>, the point \<open>(d sin a, d cos a, d, now)\<close> with
  \<open>a = radians heading + noise\<close>, as computed; it then records the heading (the lidar
  also the distance) and counts the reading.  So a point that either of them stores has
  \<open>0 < d\<close>, \<open>\<bar>x\<bar> \<le> d\<close> and \<open>\<bar>y\<bar> \<le> d\<close>, and \<open>d\<close> is the reading plus noise, not
  bounded by the viewport.
\<close>

theorem stored_coordinates:
  "(\<forall>pc0 pc g'. PointCloudScanner_init max_points max_dist fov = Inr pc0 \<longrightarrow>
        pc_feed pc0 rs g = Inr (pc, g') \<longrightarrow>
        (\<forall>(px, py, d, sz, t) \<in> set (items (pc_points pc)).
            10 \<le> px \<and> px \<le> pc_width pc - 10 \<and> 10 \<le> py \<and> py \<le> pc_height pc - 50 \<and>
            fst (pc_xlim pc) \<le> px \<and> px \<le> snd (pc_xlim pc) \<and>
            fst (pc_ylim pc) \<le> py \<and> py \<le> snd (pc_ylim pc)))
   \<and> (\<forall>sr0. SonarRadar_init = Inr sr0 \<longrightarrow>
        (\<forall>p \<in> set (items (sr_points (sr_feed sr0 qs))).
            2 < distance p \<and> distance p < MAX_RANGE \<and>
            (\<forall>a now. case draw_point a p now of (color, (px, py), sz) \<Rightarrow>
               px = CENTER_X \<and> 0 \<le> px \<and> px \<le> WIDTH \<and> 0 \<le> py \<and> py \<le> HEIGHT)))
   \<and> (\<forall>(x, y, d, t) \<in> set (items (rv_points (fst (add_point rv heading_deg dist_cm now h)))).
        (x, y, d, t) \<in> set (items (rv_points rv)) \<or> 0 < d \<and> \<bar>x\<bar> \<le> d \<and> \<bar>y\<bar> \<le> d)
   \<and> (dist_cm \<le> 0 \<or> rv_max_dist rv < dist_cm \<longrightarrow>
        add_point rv heading_deg dist_cm now h = (rv, h))
   \<and> (0 < dist_cm \<and> dist_cm \<le> rv_max_dist rv \<longrightarrow>
        add_point rv heading_deg dist_cm now h =
          (rv\<lparr>rv_points := foldl deque_append (rv_points rv)
                (map (\<lambda>i. ((dist_cm + h (2 * i + 1)) * sin (radians heading_deg + h (2 * i)),
                           (dist_cm + h (2 * i + 1)) * cos (radians heading_deg + h (2 * i)),
                           dist_cm + h (2 * i + 1), now))
                   (filter (\<lambda>i. 0 < dist_cm + h (2 * i + 1)) [0 ..< 3])),
              rv_last_heading := heading_deg,
              rv_point_count := rv_point_count rv + 1\<rparr>,
           \<lambda>k. h (k + 6)))
   \<and> (dist_cm \<le> 0 \<or> lv_max_dist lv < dist_cm \<longrightarrow>
        lidar_add_reading lv heading_deg dist_cm now h = (lv, h))
   \<and> (0 < dist_cm \<and> dist_cm \<le> lv_max_dist lv \<longrightarrow>
        lidar_add_reading lv heading_deg dist_cm now h =
          (lv\<lparr>lv_points := foldl deque_append (lv_points lv)
                (map (\<lambda>i. ((dist_cm + h (2 * i + 1)) * sin (radians heading_deg + h (2 * i)),
                           (dist_cm + h (2 * i + 1)) * cos (radians heading_deg + h (2 * i)),
                           dist_cm + h (2 * i + 1), now))
                   (filter (\<lambda>i. 0 < dist_cm + h (2 * i + 1)) [0 ..< 8])),
              lv_last_dist := dist_cm,
              lv_last_heading := heading_deg,
              lv_scan_count := lv_scan_count lv + 1\<rparr>,
           \<lambda>k. h (k + 16)))
   \<and> (\<forall>(x, y, d, t)
          \<in> set (items (lv_points (fst (lidar_add_reading lv heading_deg dist_cm now h)))).
        (x, y, d, t) \<in> set (items (lv_points lv)) \<or> 0 < d \<and> \<bar>x\<bar> \<le> d \<and> \<bar>y\<bar> \<le> d)"
proof (intro conjI allI impI)
  fix pc0 pc g'
  assume "PointCloudScanner_init max_points max_dist fov = Inr pc0"
    and "pc_feed pc0 rs g = Inr (pc, g')"
  then show "\<forall>(px, py, d, sz, t) \<in> set (items (pc_points pc)).
            10 \<le> px \<and> px \<le> pc_width pc - 10 \<and> 10 \<le> py \<and> py \<le> pc_height pc - 50 \<and>
            fst (pc_xlim pc) \<le> px \<and> px \<le> snd (pc_xlim pc) \<and>
            fst (pc_ylim pc) \<le> py \<and> py \<le> snd (pc_ylim pc)"
    by (rule pc_feed_viewport)
next
  fix sr0
  assume "SonarRadar_init = Inr sr0"
  then show "\<forall>p \<in> set (items (sr_points (sr_feed sr0 qs))).
            2 < distance p \<and> distance p < MAX_RANGE \<and>
            (\<forall>a now. case draw_point a p now of (color, (px, py), sz) \<Rightarrow>
               px = CENTER_X \<and> 0 \<le> px \<and> px \<le> WIDTH \<and> 0 \<le> py \<and> py \<le> HEIGHT)"
    by (rule sr_feed_on_screen)
next
  show "\<forall>(x, y, d, t) \<in> set (items (rv_points (fst (add_point rv heading_deg dist_cm now h)))).
        (x, y, d, t) \<in> set (items (rv_points rv)) \<or> 0 < d \<and> \<bar>x\<bar> \<le> d \<and> \<bar>y\<bar> \<le> d"
    by (rule add_point_stored)
next
  assume "dist_cm \<le> 0 \<or> rv_max_dist rv < dist_cm"
  then show "add_point rv heading_deg dist_cm now h = (rv, h)" by (rule add_point_gate)
next
  assume "0 < dist_cm \<and> dist_cm \<le> rv_max_dist rv"
  then show "add_point rv heading_deg dist_cm now h =
          (rv\<lparr>rv_points := foldl deque_append (rv_points rv)
                (map (\<lambda>i. ((dist_cm + h (2 * i + 1)) * sin (radians heading_deg + h (2 * i)),
                           (dist_cm + h (2 * i + 1)) * cos (radians heading_deg + h (2 * i)),
                           dist_cm + h (2 * i + 1), now))
                   (filter (\<lambda>i. 0 < dist_cm + h (2 * i + 1)) [0 ..< 3])),
              rv_last_heading := heading_deg,
              rv_point_count := rv_point_count rv + 1\<rparr>,
           \<lambda>k. h (k + 6))"
    by (rule add_point_exact)
next
  assume "dist_cm \<le> 0 \<or> lv_max_dist lv < dist_cm"
  then show "lidar_add_reading lv heading_deg dist_cm now h = (lv, h)"
    by (rule lidar_add_reading_gate)
next
  assume "0 < dist_cm \<and> dist_cm \<le> lv_max_dist lv"
  then show "lidar_add_reading lv heading_deg dist_cm now h =
          (lv\<lparr>lv_points := foldl deque_append (lv_points lv)
                (map (\<lambda>i. ((dist_cm + h (2 * i + 1)) * sin (radians heading_deg + h (2 * i)),
                           (dist_cm + h (2 * i + 1)) * cos (radians heading_deg + h (2 * i)),
                           dist_cm + h (2 * i + 1), now))
                   (filter (\<lambda>i. 0 < dist_cm + h (2 * i + 1)) [0 ..< 8])),
              lv_last_dist := dist_cm,
              lv_last_heading := heading_deg,
              lv_scan_count := lv_scan_count lv + 1\<rparr>,
           \<lambda>k. h (k + 16))"
    by (rule lidar_add_reading_exact)
next
  show "\<forall>(x, y, d, t)
          \<in> set (items (lv_points (fst (lidar_add_reading lv heading_deg dist_cm now h)))).
        (x, y, d, t) \<in> set (items (lv_points lv)) \<or> 0 < d \<and> \<bar>x\<bar> \<le> d \<and> \<bar>y\<bar> \<le> d"
    by (rule lidar_add_reading_stored)
qed

text \<open>
C5 as stated fails for the polar radar: a reading at heading 0 and distance 200, the
  largest accepted with \<^verbatim>\<open>max_dist = 200\<close>, whose first scatter draw adds 3 to the
  distance, stores a point with \<open>y = 203\<close>, above the upper limit 200 of the viewport.
\<close>

theorem radar_point_outside_viewport:
  "(case RadarVisualizer_init 8000 200 False of
      Inl e \<Rightarrow> None
    | Inr rv \<Rightarrow>
        Some (items (rv_points (fst (add_point rv 0 200 0 (\<lambda>n. if n = 1 then 3 else 0)))),
              rv_xlim rv, rv_ylim rv))
   = Some ([(0, 203, 203, 0), (0, 200, 200, 0), (0, 200, 200, 0)], (- 200, 200), (- 200, 200))"
proof -
  define rv where "rv = \<lparr>rv_max_points = 8000, rv_max_dist = 200, rv_demo = False,
                      rv_points = \<lparr>maxlen = 8000, items = []\<rparr>, rv_demo_angle = 0,
                      rv_demo_walls = generate_demo_environment,
                      rv_last_heading = 0, rv_point_count = 0\<rparr>"
  have i: "RadarVisualizer_init 8000 200 False = Inr rv"
    by (simp add: RadarVisualizer_init_def deque_new_def rv_def)
  have s: "fst (add_point_scatter (Suc (Suc (Suc 0))) 0 200 0 \<lparr>maxlen = 8000, items = []\<rparr>
                 (\<lambda>n. if n = 1 then 3 else 0))
           = \<lparr>maxlen = 8000, items = [(0, 203, 203, 0), (0, 200, 200, 0), (0, 200, 200, 0)]\<rparr>"
    by (simp add: add_point_scatter_Suc deque_append_def Let_def del: add_point_scatter.simps(2))
  have a: "rv_points (fst (add_point rv 0 200 0 (\<lambda>n. if n = 1 then 3 else 0)))
           = \<lparr>maxlen = 8000, items = [(0, 203, 203, 0), (0, 200, 200, 0), (0, 200, 200, 0)]\<rparr>"
    using s by (simp add: add_point_def Let_def case_prod_beta radians_def rv_def numeral_3_eq_3
                     del: add_point_scatter.simps(2))
  have l: "rv_xlim rv = (- 200, 200)" "rv_ylim rv = (- 200, 200)"
    by (simp_all add: rv_xlim_def rv_ylim_def rv_def)
  show ?thesis by (simp add: i a l del: One_nat_def)
qed

lemma pc_add_reading_Inr:
  "pc_max_dist self \<noteq> 0 \<Longrightarrow> \<exists>s' g'. pc_add_reading self dst ho now g = Inr (s', g')"
  by (simp add: pc_add_reading_def Let_def case_prod_beta)

theorem stored_coordinates_witness:
  "(\<exists>pc0 pc g'. PointCloudScanner_init 50000 300 90 = Inr pc0 \<and>
      pc_feed pc0 [(100, 0, 0)] (\<lambda>n. 10000) = Inr (pc, g') \<and>
      list_all (\<lambda>(px, py, d, sz, t). 10 \<le> px \<and> px \<le> 1190 \<and> 10 \<le> py \<and> py \<le> 650)
        (items (pc_points pc)))
   \<and> items (rv_points (fst (add_point
        \<lparr>rv_max_points = 8000, rv_max_dist = 200, rv_demo = False,
          rv_points = \<lparr>maxlen = 8000, items = []\<rparr>, rv_demo_angle = 0,
          rv_demo_walls = [], rv_last_heading = 0, rv_point_count = 0\<rparr>
        0 50 1 (\<lambda>n. 0))))
     = [(0, 50, 50, 1), (0, 50, 50, 1), (0, 50, 50, 1)]
   \<and> add_point
        \<lparr>rv_max_points = 8000, rv_max_dist = 200, rv_demo = False,
          rv_points = \<lparr>maxlen = 8000, items = []\<rparr>, rv_demo_angle = 0,
          rv_demo_walls = [], rv_last_heading = 0, rv_point_count = 0\<rparr>
        0 201 1 (\<lambda>n. 0)
     = (\<lparr>rv_max_points = 8000, rv_max_dist = 200, rv_demo = False,
          rv_points = \<lparr>maxlen = 8000, items = []\<rparr>, rv_demo_angle = 0,
          rv_demo_walls = [], rv_last_heading = 0, rv_point_count = 0\<rparr>, \<lambda>n. 0)
   \<and> items (lv_points (fst (lidar_add_reading
        \<lparr>lv_max_points = 15000, lv_max_dist = 250,
          lv_points = \<lparr>maxlen = 15000, items = []\<rparr>, lv_scan_count = 0, lv_last_dist = 0,
          lv_last_heading = 0\<rparr>
        180 100 7 (\<lambda>n. 0))))
     = [(0, - 100, 100, 7), (0, - 100, 100, 7), (0, - 100, 100, 7), (0, - 100, 100, 7),
        (0, - 100, 100, 7), (0, - 100, 100, 7), (0, - 100, 100, 7), (0, - 100, 100, 7)]
   \<and> lv_ylim \<lparr>lv_max_points = 15000, lv_max_dist = 250,
          lv_points = \<lparr>maxlen = 15000, items = []\<rparr>, lv_scan_count = 0, lv_last_dist = 0,
          lv_last_heading = 0\<rparr> = (- 75, 250)
   \<and> lidar_add_reading
        \<lparr>lv_max_points = 15000, lv_max_dist = 250,
          lv_points = \<lparr>maxlen = 15000, items = []\<rparr>, lv_scan_count = 0, lv_last_dist = 0,
          lv_last_heading = 0\<rparr>
        180 0 7 (\<lambda>n. 0)
     = (\<lparr>lv_max_points = 15000, lv_max_dist = 250,
          lv_points = \<lparr>maxlen = 15000, items = []\<rparr>, lv_scan_count = 0, lv_last_dist = 0,
          lv_last_heading = 0\<rparr>, \<lambda>n. 0)
   \<and> (\<exists>sr0. SonarRadar_init = Inr sr0 \<and>
        list_all (\<lambda>p. 2 < distance p \<and> distance p < 200)
          (items (sr_points (sr_feed sr0 [(100, ''FWD'', 1), (250, ''FWD'', 2)]))))"
proof -
  define rv where "rv = \<lparr>rv_max_points = 8000, rv_max_dist = 200, rv_demo = False,
          rv_points = \<lparr>maxlen = 8000, items = []\<rparr>, rv_demo_angle = 0,
          rv_demo_walls = [], rv_last_heading = 0, rv_point_count = 0\<rparr>"
  define lv where "lv = \<lparr>lv_max_points = 15000, lv_max_dist = 250,
          lv_points = \<lparr>maxlen = 15000, items = []\<rparr>, lv_scan_count = 0, lv_last_dist = 0,
          lv_last_heading = 0\<rparr>"
  have u3: "[0 ..< 3] = [0, 1, 2 :: nat]" by code_simp
  have u8: "[0 ..< 8] = [0, 1, 2, 3, 4, 5, 6, 7 :: nat]" by code_simp
  have "PointCloudScanner_init 50000 300 90
        = Inr \<lparr>pc_max_points = 50000, pc_max_dist = 300, pc_fov = 90,
                pc_points = \<lparr>maxlen = 50000, items = []\<rparr>, pc_camera_angle = 0,
                pc_camera_speed = 0.8, pc_width = 1200, pc_height = 700, pc_last_dist = 0,
                pc_scan_count = 0\<rparr>"
    by (simp add: PointCloudScanner_init_def deque_new_def)
  then obtain pc0 where i: "PointCloudScanner_init 50000 300 90 = Inr pc0" by blast
  note f = PointCloudScanner_init_fields [OF i]
  have "pc_max_dist pc0 \<noteq> 0" by (simp add: f)
  from pc_add_reading_Inr [OF this, of 100 0 0 "\<lambda>n. 10000"] obtain pc g'
    where "pc_add_reading pc0 100 0 0 (\<lambda>n. 10000) = Inr (pc, g')" by blast
  then have run: "pc_feed pc0 [(100, 0, 0)] (\<lambda>n. 10000) = Inr (pc, g')" by simp
  note t = stored_coordinates [where max_points = 50000 and max_dist = 300 and fov = 90
             and rs = "[(100, 0, 0)]" and g = "\<lambda>n. 10000", THEN conjunct1]
  from t i run
  have b: "\<forall>(px, py, d, sz, t) \<in> set (items (pc_points pc)).
            10 \<le> px \<and> px \<le> pc_width pc - 10 \<and> 10 \<le> py \<and> py \<le> pc_height pc - 50 \<and>
            fst (pc_xlim pc) \<le> px \<and> px \<le> snd (pc_xlim pc) \<and>
            fst (pc_ylim pc) \<le> py \<and> py \<le> snd (pc_ylim pc)" by blast
  have w: "pc_width pc0 = 1200" "pc_height pc0 = 700" by (rule f)+
  have k: "20 \<le> pc_width pc0" "60 \<le> pc_height pc0" by (simp_all add: w)
  have e: "\<forall>(px, py, d, sz, t) \<in> set (items (pc_points pc0)).
             10 \<le> px \<and> px \<le> pc_width pc0 - 10 \<and> 10 \<le> py \<and> py \<le> pc_height pc0 - 50"
    by (simp add: f)
  from pc_feed_bounds [OF k e run] have "pc_width pc = 1200" "pc_height pc = 700"
    by (simp_all add: w)
  with b have "list_all (\<lambda>(px, py, d, sz, t). 10 \<le> px \<and> px \<le> 1190 \<and> 10 \<le> py \<and> py \<le> 650)
                 (items (pc_points pc))"
    by (simp add: list_all_iff case_prod_beta)
  with i run have c1: "\<exists>pc0 pc g'. PointCloudScanner_init 50000 300 90 = Inr pc0 \<and>
      pc_feed pc0 [(100, 0, 0)] (\<lambda>n. 10000) = Inr (pc, g') \<and>
      list_all (\<lambda>(px, py, d, sz, t). 10 \<le> px \<and> px \<le> 1190 \<and> 10 \<le> py \<and> py \<le> 650)
        (items (pc_points pc))" by blast
  have acc: "0 < (50::real) \<and> 50 \<le> rv_max_dist rv" by (simp add: rv_def)
  note r = stored_coordinates [where rv = rv and heading_deg = 0 and dist_cm = 50 and now = 1
             and h = "\<lambda>n. 0", THEN conjunct2, THEN conjunct2, THEN conjunct2, THEN conjunct2, THEN conjunct1, THEN mp, OF acc]
  from r have "add_point rv 0 50 1 (\<lambda>n. 0) =
          (rv\<lparr>rv_points := foldl deque_append (rv_points rv)
                (map (\<lambda>i. ((50 + 0) * sin (radians 0 + 0), (50 + 0) * cos (radians 0 + 0),
                           50 + 0, 1))
                   (filter (\<lambda>i. 0 < (50::real) + 0) [0 ..< 3])),
              rv_last_heading := 0,
              rv_point_count := rv_point_count rv + 1\<rparr>,
           \<lambda>k. 0)" .
  then have c2: "items (rv_points (fst (add_point rv 0 50 1 (\<lambda>n. 0))))
     = [(0, 50, 50, 1), (0, 50, 50, 1), (0, 50, 50, 1)]"
    by (simp add: u3 rv_def radians_def deque_append_def Let_def del: upt_Suc)
  have rej: "(201::real) \<le> 0 \<or> rv_max_dist rv < 201" by (simp add: rv_def)
  note r' = stored_coordinates [where rv = rv and heading_deg = 0 and dist_cm = 201 and now = 1
             and h = "\<lambda>n. 0", THEN conjunct2, THEN conjunct2, THEN conjunct2, THEN conjunct1, THEN mp, OF rej]
  from r' have c3: "add_point rv 0 201 1 (\<lambda>n. 0) = (rv, \<lambda>n. 0)" .
  have lacc: "0 < (100::real) \<and> 100 \<le> lv_max_dist lv" by (simp add: lv_def)
  note l = stored_coordinates [where lv = lv and heading_deg = 180 and dist_cm = 100 and now = 7
             and h = "\<lambda>n. 0", THEN conjunct2, THEN conjunct2, THEN conjunct2, THEN conjunct2, THEN conjunct2, THEN conjunct2, THEN conjunct1, THEN mp, OF lacc]
  from l have "lidar_add_reading lv 180 100 7 (\<lambda>n. 0) =
          (lv\<lparr>lv_points := foldl deque_append (lv_points lv)
                (map (\<lambda>i. ((100 + 0) * sin (radians 180 + 0), (100 + 0) * cos (radians 180 + 0),
                           100 + 0, 7))
                   (filter (\<lambda>i. 0 < (100::real) + 0) [0 ..< 8])),
              lv_last_dist := 100,
              lv_last_heading := 180,
              lv_scan_count := lv_scan_count lv + 1\<rparr>,
           \<lambda>k. 0)" .
  then have c4: "items (lv_points (fst (lidar_add_reading lv 180 100 7 (\<lambda>n. 0))))
     = [(0, - 100, 100, 7), (0, - 100, 100, 7), (0, - 100, 100, 7), (0, - 100, 100, 7),
        (0, - 100, 100, 7), (0, - 100, 100, 7), (0, - 100, 100, 7), (0, - 100, 100, 7)]"
    by (simp add: u8 lv_def radians_def deque_append_def Let_def del: upt_Suc)
  have c5: "lv_ylim lv = (- 75, 250)" by (simp add: lv_ylim_def lv_def)
  have lrej: "(0::real) \<le> 0 \<or> lv_max_dist lv < 0" by simp
  note l' = stored_coordinates [where lv = lv and heading_deg = 180 and dist_cm = 0 and now = 7
             and h = "\<lambda>n. 0", THEN conjunct2, THEN conjunct2, THEN conjunct2, THEN conjunct2, THEN conjunct2, THEN conjunct1, THEN mp, OF lrej]
  from l' have c6: "lidar_add_reading lv 180 0 7 (\<lambda>n. 0) = (lv, \<lambda>n. 0)" .
  have "SonarRadar_init = Inr \<lparr>sr_points = \<lparr>maxlen = nat MAX_POINTS, items = []\<rparr>,
                     sr_current_distance = 0, sr_state = ''STOP'', sr_last_reading_time = 0\<rparr>"
    by (simp add: SonarRadar_init_def deque_new_def MAX_POINTS_def)
  then obtain sr0 where si: "SonarRadar_init = Inr sr0" by blast
  note s = stored_coordinates [where qs = "[(100, ''FWD'', 1), (250, ''FWD'', 2)]",
             THEN conjunct2, THEN conjunct1, THEN spec, THEN mp, OF si]
  from s have "list_all (\<lambda>p. 2 < distance p \<and> distance p < 200)
          (items (sr_points (sr_feed sr0 [(100, ''FWD'', 1), (250, ''FWD'', 2)])))"
    unfolding list_all_iff MAX_RANGE_def by blast
  with si have c7: "\<exists>sr0. SonarRadar_init = Inr sr0 \<and>
        list_all (\<lambda>p. 2 < distance p \<and> distance p < 200)
          (items (sr_points (sr_feed sr0 [(100, ''FWD'', 1), (250, ''FWD'', 2)])))" by blast
  show ?thesis
    unfolding rv_def [symmetric] lv_def [symmetric]
    by (intro conjI) (rule c1 c2 c3 c4 c5 c6 c7)+
qed

subsection \<open>Readings without a positive distance\<close>








end
